theory Spec2Isabelle
  imports Complex_Main "HOL-Library.AList"
begin

section \<open>The epoch logger: data model\<close>

text \<open>
  The program is the class \<open>Logger\<close> of \<open>logger.py\<close>. Its instance attributes are the
  fields of the record \<open>logger\<close>; the parts of the outside world its methods touch (the
  platform it runs on, the json files of the storage directory, the charts written by
  \<open>plot\<close>, the lines printed on standard output, the summary files) are fields of the
  same record, so that every method is a function from the state before the call to the
  state after it.

  Python dictionaries keep insertion order, and the order of iteration decides what a
  method has done when it raises, so a dictionary is an association list:
  \<open>map_of\<close> reads a key, \<open>AList.update\<close> assigns to it (in place when the key is present,
  at the end otherwise), and the keys of a dictionary are distinct.

  Modelling decisions:
  \<^item> a float is a \<open>real\<close>: NaN and the infinities are not values of the model, the
    rounding of \<open>sum(v) / len(v)\<close> is not modelled, and no theorem below depends on the
    value of a mean;
  \<^item> a path is kept as the pair of the arguments of \<open>os.path.join\<close>, the directory and
    the file name, and \<open>files\<close> gives for each such name what reading it finds. Which
    file a name denotes when it is opened for writing, if the directories on the way to
    it exist at all, is decided by the file system: the function \<open>locate\<close> of the
    platform the logger runs on. Two names can denote one file (\<open>loss\<close> and \<open>./loss\<close>),
    and a write through one of them is seen through the other;
  \<^item> the \<open>json\<close> module is outside the repository. A file is modelled by what
    \<open>json.load\<close> makes of it, an array of floats or a decoding failure; what
    \<open>json.dump\<close> leaves in a file is the function \<open>json_dump\<close> of the platform;
  \<^item> \<open>matplotlib\<close> is outside the repository: of \<open>plt.yscale\<close> the model keeps which
    names it accepts and what it raises for the others (the function \<open>plt_yscale\<close> of
    the platform), of \<open>plt.savefig\<close> that it opens its file for writing.
\<close>

datatype error =
    FileNotFoundError
  | KeyError
  | IndexError
  | AssertionError
  | ZeroDivisionError
  | NameError
  | AttributeError
  | JSONDecodeError
  | ValueError
  | TypeError
  | OSError

text \<open>The values a caller can pass to \<open>log_info\<close>; \<open>type(v) is float\<close> holds of \<open>PyFloat\<close> only.\<close>

datatype pyval = PyFloat real | PyInt int | PyBool bool | PyStr string | PyNone

type_synonym path = "string \<times> string"

datatype content = JsonArray "real list" | NotJson

type_synonym epoch_info = "(string \<times> real list) list"

text \<open>
  The platform: \<open>json_dump v\<close> is the content of a file after
  \<open>json.dump(v, f, indent=4)\<close>, as \<open>json.load\<close> will read it. \<open>locate (d, n)\<close> is the file
  that \<open>open(os.path.join(d, n), 'w')\<close> creates or truncates, or \<open>None\<close> when that call
  raises: FileNotFoundError when a directory on the way is missing, NotADirectoryError
  when a file is in its place, IsADirectoryError when the name is that of a directory,
  PermissionError when the process may not write there, all of them subclasses of
  OSError, which is the error of the model. No method
  creates or removes a directory once the constructor has run, so one function serves
  for all the calls on a logger. \<open>plt_yscale name\<close> is the error that \<open>plt.yscale(name)\<close>
  raises, or \<open>None\<close> when it returns.
\<close>

type_synonym location = "string list"

record platform =
  json_dump :: "real list \<Rightarrow> content"
  locate :: "path \<Rightarrow> location option"
  plt_yscale :: "string \<Rightarrow> error option"

text \<open>
  What \<open>print\<close> writes, one value per call: the header line of the epoch, a line
  holding an alias and a mean (kept as the alias and the number that is formatted),
  and the blank line.
\<close>

datatype out_line = Header int | Entry string real | Blank

record chart =
  title :: string
  yscale :: string
  series :: "real list"
  savefig :: path

record logger =
  meta_info_dict :: "(string \<times> (string \<times> string) list) list"
  log_dir_path :: string
  info :: "epoch_info list"
  periodic_plot :: bool
  period :: int
  plot_counter :: int
  is_loading :: bool
  host :: platform
  files :: "path \<rightharpoonup> content"
  plots :: "chart list list"
  stdout :: "out_line list"
  summaries :: "(path \<times> (string \<times> real) list) list"

type_synonym outcome = "(error \<times> logger) + logger"

text \<open>
  A method returns \<open>Inr s'\<close> when it returns normally and \<open>Inl (e, s')\<close> when it raises
  \<open>e\<close>; \<open>s'\<close> is the state it leaves behind in either case, since what a method has
  mutated before raising stays mutated.
\<close>

definition state_of :: "outcome \<Rightarrow> logger" where
  "state_of r = (case r of Inl (e, s) \<Rightarrow> s | Inr s \<Rightarrow> s)"

definition keys :: "logger \<Rightarrow> string list" where
  "keys s = map fst (meta_info_dict s)"

text \<open>
  \<open>xs[i]\<close> for a Python list and an integer: the indices \<open>0 .. len - 1\<close> count from the
  front, \<open>- len .. - 1\<close> from the back, and every other index raises IndexError
  (\<open>None\<close>).
\<close>

definition py_index :: "'a list \<Rightarrow> int \<Rightarrow> 'a option" where
  "py_index xs i =
     (if 0 \<le> i \<and> i < int (length xs) then Some (xs ! nat i)
      else if i < 0 \<and> - int (length xs) \<le> i then Some (xs ! nat (int (length xs) + i))
      else None)"

subsection \<open>File names\<close>

definition digit_char :: "nat \<Rightarrow> char" where
  "digit_char d = char_of (48 + d)"

function str_nat :: "nat \<Rightarrow> string" where
  "str_nat n = (if n < 10 then [digit_char n] else str_nat (n div 10) @ [digit_char (n mod 10)])"
  by pat_completeness auto
termination
  by (relation "measure (\<lambda>n. n)") auto

declare str_nat.simps [simp del]

text \<open>The format \<open>{epoch:02d}\<close>: at least two characters, padded with zeros after the sign.\<close>

definition fmt_02d :: "int \<Rightarrow> string" where
  "fmt_02d e =
     (if e < 0 then CHR ''-'' # str_nat (nat (- e))
      else if e < 10 then CHR ''0'' # str_nat (nat e)
      else str_nat (nat e))"

definition epoch_file :: "string \<Rightarrow> int \<Rightarrow> string" where
  "epoch_file k epoch = k @ ''_'' @ fmt_02d epoch @ ''.json''"

definition epoch_path :: "logger \<Rightarrow> string \<Rightarrow> int \<Rightarrow> path" where
  "epoch_path s k epoch = (log_dir_path s, epoch_file k epoch)"

subsection \<open>Writing a file\<close>

text \<open>
  A write through the name \<open>p\<close> sets what is read through every name of the same file.
\<close>

definition write_file ::
  "platform \<Rightarrow> path \<Rightarrow> content \<Rightarrow> (path \<rightharpoonup> content) \<Rightarrow> (path \<rightharpoonup> content)" where
  "write_file h p c fs = (\<lambda>q. if locate h q = locate h p then Some c else fs q)"

text \<open>
  The \<open>locate\<close> of a POSIX file system without links, whose directories other than the
  root are \<open>ds\<close>, for a process whose working directory is \<open>cwd\<close>; a directory and a file
  are named by the components that lead to them from the root.

  \<open>os_path_join\<close> is \<open>posixpath.join\<close> for two arguments. The components of the joined
  name (\<open>name.split('/')\<close>, read off with \<open>w\<close> the component begun) are then followed
  one by one: an empty component and \<open>.\<close> stay where they are, \<open>..\<close>
  goes to the parent (the root is its own parent), and any other component must be a
  directory that exists. The last component names the file, which must not be a
  directory.
\<close>

fun split_from :: "string \<Rightarrow> string \<Rightarrow> string list" where
  "split_from w [] = [w]"
| "split_from w (c # cs) =
     (if c = CHR ''/'' then w # split_from [] cs else split_from (w @ [c]) cs)"

definition split_slash :: "string \<Rightarrow> string list" where
  "split_slash name = split_from [] name"

definition os_path_join :: "string \<Rightarrow> string \<Rightarrow> string" where
  "os_path_join a b =
     (if b \<noteq> [] \<and> hd b = CHR ''/'' then b
      else if a = [] \<or> last a = CHR ''/'' then a @ b
      else a @ ''/'' @ b)"

fun walk :: "location list \<Rightarrow> location \<Rightarrow> string list \<Rightarrow> location option" where
  "walk ds cur [] = Some cur"
| "walk ds cur (c # cs) =
     (if c = [] \<or> c = ''.'' then walk ds cur cs
      else if c = ''..'' then walk ds (butlast cur) cs
      else if cur @ [c] \<in> set ds then walk ds (cur @ [c]) cs
      else None)"

definition posix_locate :: "location list \<Rightarrow> location \<Rightarrow> path \<Rightarrow> location option" where
  "posix_locate ds cwd p =
     (let name = os_path_join (fst p) (snd p);
          cs = split_slash name
      in case walk ds (if name \<noteq> [] \<and> hd name = CHR ''/'' then [] else cwd) (butlast cs) of
           None \<Rightarrow> None
         | Some cur \<Rightarrow>
             (if last cs = [] \<or> last cs = ''.'' \<or> last cs = ''..'' \<or> cur @ [last cs] \<in> set ds
              then None
              else Some (cur @ [last cs])))"

text \<open>The directory that the name \<open>d\<close> denotes there, if it exists.\<close>

definition posix_dir :: "location list \<Rightarrow> location \<Rightarrow> string \<Rightarrow> location option" where
  "posix_dir ds cwd d = walk ds (if d \<noteq> [] \<and> hd d = CHR ''/'' then [] else cwd) (split_slash d)"

subsection \<open>plot\<close>

text \<open>
  The \<open>plt_yscale\<close> of matplotlib 3.7 and later: \<open>plt.yscale(name)\<close> looks the name up
  among the registered scales and raises ValueError when it is not there. Of the
  registered names, \<open>function\<close> and \<open>functionlog\<close> need an argument that the logger does
  not pass, which is a TypeError.
\<close>

definition registered_scale :: "string \<Rightarrow> error option" where
  "registered_scale name =
     (if name \<in> set [''linear'', ''log'', ''symlog'', ''asinh'', ''logit''] then None
      else if name \<in> set [''function'', ''functionlog''] then Some TypeError
      else Some ValueError)"

text \<open>
  \<open>plot\<close> gathers, for each declared key, the values of all epochs in order
  (\<open>info[k].extend(v)\<close>, KeyError when an epoch has a key that is not declared), then
  writes one chart per key: the scale is set, the values are drawn, and \<open>plt.savefig\<close>
  opens the file of the chart. A scale that \<open>plt.yscale\<close> refuses, or a file that cannot
  be opened, ends the call with the charts of the earlier keys written. Each call that
  gets as far as the charts adds the list of those it wrote to \<open>plots\<close>; the charts are
  kept there and not in \<open>files\<close>, which holds what is read back, the json files.
\<close>

fun gather_items :: "epoch_info \<Rightarrow> epoch_info \<Rightarrow> error + epoch_info" where
  "gather_items [] acc = Inr acc"
| "gather_items ((k, v) # kvs) acc =
     (case map_of acc k of
        None \<Rightarrow> Inl KeyError
      | Some xs \<Rightarrow> gather_items kvs (AList.update k (xs @ v) acc))"

fun gather :: "epoch_info list \<Rightarrow> epoch_info \<Rightarrow> error + epoch_info" where
  "gather [] acc = Inr acc"
| "gather (epoch_info # rest) acc =
     (case gather_items epoch_info acc of
        Inl e \<Rightarrow> Inl e
      | Inr acc' \<Rightarrow> gather rest acc')"

definition key_scale :: "(string \<times> string) list \<Rightarrow> string" where
  "key_scale opts = (case map_of opts ''yscale'' of Some y \<Rightarrow> y | None \<Rightarrow> ''log'')"

definition chart_path :: "logger \<Rightarrow> string \<Rightarrow> path" where
  "chart_path s k = (log_dir_path s, k @ ''.pdf'')"

fun render ::
  "logger \<Rightarrow> epoch_info \<Rightarrow> chart list \<Rightarrow> (error \<times> chart list) + chart list" where
  "render s [] out = Inr out"
| "render s ((k, v) # kvs) out =
     (case map_of (meta_info_dict s) k of
        None \<Rightarrow> Inl (KeyError, out)
      | Some opts \<Rightarrow>
          (case plt_yscale (host s) (key_scale opts) of
             Some e \<Rightarrow> Inl (e, out)
           | None \<Rightarrow>
               (case locate (host s) (chart_path s k) of
                  None \<Rightarrow> Inl (OSError, out)
                | Some l \<Rightarrow>
                    render s kvs
                      (out @ [\<lparr>title = k, yscale = key_scale opts, series = v,
                               savefig = chart_path s k\<rparr>]))))"

definition plot :: "logger \<Rightarrow> outcome" where
  "plot s =
     (case gather (info s) (map (\<lambda>k. (k, [])) (keys s)) of
        Inl e \<Rightarrow> Inl (e, s)
      | Inr gathered \<Rightarrow>
          (case render s gathered [] of
             Inl (e, charts) \<Rightarrow> Inl (e, s\<lparr>plots := plots s @ [charts]\<rparr>)
           | Inr charts \<Rightarrow> Inr (s\<lparr>plots := plots s @ [charts]\<rparr>)))"

subsection \<open>new_epoch and log_info\<close>

definition new_epoch :: "logger \<Rightarrow> outcome" where
  "new_epoch s =
     (case (if \<not> is_loading s \<and> periodic_plot s then plot s else Inr s) of
        Inl err \<Rightarrow> Inl err
      | Inr s1 \<Rightarrow> Inr (s1\<lparr>info := info s1 @ [map (\<lambda>k. (k, [])) (keys s1)]\<rparr>))"

text \<open>
  The loop of \<open>log_info\<close>, one declared key at a time: \<open>info_to_log[k]\<close> (KeyError),
  the assertion, \<open>self.info[-1]\<close> (IndexError on an empty list), \<open>[k]\<close> (KeyError),
  \<open>append\<close>.
\<close>

fun log_info_loop :: "string list \<Rightarrow> (string \<rightharpoonup> pyval) \<Rightarrow> logger \<Rightarrow> outcome" where
  "log_info_loop [] info_to_log s = Inr s"
| "log_info_loop (k # ks) info_to_log s =
     (case info_to_log k of
        None \<Rightarrow> Inl (KeyError, s)
      | Some (PyFloat v) \<Rightarrow>
          (if info s = [] then Inl (IndexError, s)
           else (case map_of (last (info s)) k of
                   None \<Rightarrow> Inl (KeyError, s)
                 | Some xs \<Rightarrow>
                     log_info_loop ks info_to_log
                       (s\<lparr>info := butlast (info s) @
                                    [AList.update k (xs @ [v]) (last (info s))]\<rparr>)))
      | Some _ \<Rightarrow> Inl (AssertionError, s))"

definition log_info :: "logger \<Rightarrow> (string \<rightharpoonup> pyval) \<Rightarrow> outcome" where
  "log_info s info_to_log =
     (case log_info_loop (keys s) info_to_log s of
        Inl err \<Rightarrow> Inl err
      | Inr s1 \<Rightarrow>
          (if periodic_plot s1 then
             (if period s1 = 0 then Inl (ZeroDivisionError, s1)
              else
                (let s2 = s1\<lparr>plot_counter := (plot_counter s1 + 1) mod period s1\<rparr>
                 in if plot_counter s2 = 0 then plot s2 else Inr s2))
           else Inr s1))"

subsection \<open>save_epoch and load_epoch\<close>

text \<open>
  \<open>open(path, 'w')\<close> raises when the platform has no file for the name. Otherwise it
  truncates the file before \<open>self.info[epoch][k]\<close> is evaluated, so a call that raises
  there leaves an empty file, which \<open>json.load\<close> cannot decode.
\<close>

fun save_epoch_loop :: "string list \<Rightarrow> int \<Rightarrow> logger \<Rightarrow> outcome" where
  "save_epoch_loop [] epoch s = Inr s"
| "save_epoch_loop (k # ks) epoch s =
     (let path = epoch_path s k epoch
      in case locate (host s) path of
           None \<Rightarrow> Inl (OSError, s)
         | Some l \<Rightarrow>
             (let s1 = s\<lparr>files := write_file (host s) path NotJson (files s)\<rparr>
              in case py_index (info s1) epoch of
                   None \<Rightarrow> Inl (IndexError, s1)
                 | Some epoch_info \<Rightarrow>
                     (case map_of epoch_info k of
                        None \<Rightarrow> Inl (KeyError, s1)
                      | Some v \<Rightarrow>
                          save_epoch_loop ks epoch
                            (s1\<lparr>files :=
                                  write_file (host s) path (json_dump (host s) v) (files s1)\<rparr>))))"

definition save_epoch :: "logger \<Rightarrow> int \<Rightarrow> outcome" where
  "save_epoch s epoch = save_epoch_loop (keys s) epoch s"

definition save_last_epoch :: "logger \<Rightarrow> outcome" where
  "save_last_epoch s = save_epoch s (int (length (info s)) - 1)"

fun load_epoch_loop :: "string list \<Rightarrow> int \<Rightarrow> logger \<Rightarrow> outcome" where
  "load_epoch_loop [] epoch s = Inr s"
| "load_epoch_loop (k # ks) epoch s =
     (case files s (epoch_path s k epoch) of
        None \<Rightarrow> Inl (FileNotFoundError, s)
      | Some NotJson \<Rightarrow> Inl (JSONDecodeError, s)
      | Some (JsonArray key_info) \<Rightarrow>
          (if info s = [] then Inl (IndexError, s)
           else load_epoch_loop ks epoch
                  (s\<lparr>info := butlast (info s) @
                               [AList.update k key_info (last (info s))]\<rparr>)))"

definition load_epoch :: "logger \<Rightarrow> int \<Rightarrow> outcome" where
  "load_epoch s epoch = load_epoch_loop (keys s) epoch s"

subsection \<open>load and the constructor\<close>

text \<open>
  The loop of \<open>load\<close> has no bound of its own: it ends when \<open>load_epoch\<close> raises. \<open>None\<close>
  is the loop that never returns. Only FileNotFoundError is caught; any other exception
  leaves \<open>load\<close> (and the constructor) with \<open>is_loading\<close> still set.
\<close>

partial_function (option) load_loop :: "logger \<Rightarrow> int \<Rightarrow> outcome option" where
  "load_loop s epoch =
     (case new_epoch s of
        Inl err \<Rightarrow> Some (Inl err)
      | Inr s1 \<Rightarrow>
          (case load_epoch s1 epoch of
             Inr s2 \<Rightarrow> load_loop s2 (epoch + 1)
           | Inl (e, s2) \<Rightarrow>
               (if e = FileNotFoundError then
                  (if info s2 = [] then Some (Inl (IndexError, s2))
                   else Some (Inr (s2\<lparr>info := butlast (info s2), is_loading := False\<rparr>)))
                else Some (Inl (e, s2)))))"

definition load :: "logger \<Rightarrow> outcome option" where
  "load s = load_loop (s\<lparr>is_loading := True\<rparr>) 0"

text \<open>
  \<open>Logger(meta_info_dict, log_dir_path, periodic_plot, period)\<close>, run on the platform
  \<open>h\<close> in a world whose storage directory holds \<open>fs\<close>, both taken as
  \<open>os.makedirs(..., exist_ok=True)\<close> has left them: it changes no file.
\<close>

definition fresh_logger ::
  "(string \<times> (string \<times> string) list) list \<Rightarrow> string \<Rightarrow> bool \<Rightarrow> int \<Rightarrow> platform \<Rightarrow>
   (path \<rightharpoonup> content) \<Rightarrow> logger" where
  "fresh_logger meta dir pp per h fs =
     \<lparr>meta_info_dict = meta, log_dir_path = dir, info = [], periodic_plot = pp,
      period = per, plot_counter = 0, is_loading = False, host = h, files = fs, plots = [],
      stdout = [], summaries = []\<rparr>"

definition Logger_init ::
  "(string \<times> (string \<times> string) list) list \<Rightarrow> string \<Rightarrow> bool \<Rightarrow> int \<Rightarrow> platform \<Rightarrow>
   (path \<rightharpoonup> content) \<Rightarrow> outcome option" where
  "Logger_init meta dir pp per h fs = load (fresh_logger meta dir pp per h fs)"

subsection \<open>Epoch summaries\<close>

text \<open>
  \<open>get_key_alias(self, key)\<close> reads the name \<open>k\<close>, which is neither a parameter nor a
  local of the function: Python looks it up among the globals of the module, which binds
  \<open>json\<close>, \<open>os\<close>, \<open>plt\<close> and \<open>Logger\<close> only. The lookup raises NameError, which the
  handler for KeyError does not catch.
\<close>

definition module_global_k :: "string option" where
  "module_global_k = None"

definition get_key_alias :: "logger \<Rightarrow> string \<Rightarrow> error + string" where
  "get_key_alias s key =
     (case module_global_k of
        None \<Rightarrow> Inl NameError
      | Some k \<Rightarrow>
          (case map_of (meta_info_dict s) k of
             None \<Rightarrow> Inr k
           | Some opts \<Rightarrow> (case map_of opts ''alias'' of None \<Rightarrow> Inr k | Some alias \<Rightarrow> Inr alias)))"

text \<open>
  In the f-string of \<open>print_epoch_summary\<close> the alias is evaluated before the mean, and
  the line is printed only when both are there.
\<close>

fun print_summary_loop :: "logger \<Rightarrow> epoch_info \<Rightarrow> outcome" where
  "print_summary_loop s [] = Inr s"
| "print_summary_loop s ((k, v) # kvs) =
     (case get_key_alias s k of
        Inl e \<Rightarrow> Inl (e, s)
      | Inr alias \<Rightarrow>
          (if length v = 0 then Inl (ZeroDivisionError, s)
           else print_summary_loop
                  (s\<lparr>stdout := stdout s @ [Entry alias (sum_list v / real (length v))]\<rparr>) kvs))"

definition print_epoch_summary :: "logger \<Rightarrow> int \<Rightarrow> outcome" where
  "print_epoch_summary s epoch =
     (let s1 = s\<lparr>stdout := stdout s @ [Header epoch]\<rparr>
      in case py_index (info s1) epoch of
           None \<Rightarrow> Inl (IndexError, s1)
         | Some epoch_info \<Rightarrow>
             (case print_summary_loop s1 epoch_info of
                Inl err \<Rightarrow> Inl err
              | Inr s2 \<Rightarrow> Inr (s2\<lparr>stdout := stdout s2 @ [Blank]\<rparr>)))"

fun summary_loop :: "epoch_info \<Rightarrow> (string \<times> real) list \<Rightarrow> error + (string \<times> real) list" where
  "summary_loop [] summary = Inr summary"
| "summary_loop ((k, v) # kvs) summary =
     (if length v = 0 then Inl ZeroDivisionError
      else summary_loop kvs (AList.update k (sum_list v / real (length v)) summary))"

text \<open>
  The string attributes of a \<open>Logger\<close> instance: \<open>__init__\<close> sets \<open>log_dir_path\<close> and no
  other; reading any other name from \<open>self\<close> as a directory raises AttributeError.
\<close>

definition getattr_dir :: "logger \<Rightarrow> string \<Rightarrow> string option" where
  "getattr_dir s name = (if name = ''log_dir_path'' then Some (log_dir_path s) else None)"

text \<open>
  After the loop \<open>save_epoch_summary\<close> evaluates the arguments of \<open>os.path.join\<close> from
  left to right: \<open>self.dir_path\<close>, then the file name, which reads the loop variable \<open>k\<close>
  (unbound, a NameError, when the epoch has no key).
\<close>

definition save_epoch_summary :: "logger \<Rightarrow> int \<Rightarrow> outcome" where
  "save_epoch_summary s epoch =
     (case py_index (info s) epoch of
        None \<Rightarrow> Inl (IndexError, s)
      | Some epoch_info \<Rightarrow>
          (case summary_loop epoch_info [] of
             Inl e \<Rightarrow> Inl (e, s)
           | Inr summary \<Rightarrow>
               (case getattr_dir s ''dir_path'' of
                  None \<Rightarrow> Inl (AttributeError, s)
                | Some d \<Rightarrow>
                    (if epoch_info = [] then Inl (NameError, s)
                     else Inr (s\<lparr>summaries := summaries s @
                            [((d, ''__summary_'' @ fst (last epoch_info) @ ''_'' @
                                  fmt_02d (int (length (info s)) - epoch) @ ''.json''),
                              summary)]\<rparr>)))))"

definition save_last_epoch_summary :: "logger \<Rightarrow> outcome" where
  "save_last_epoch_summary s = save_epoch_summary s (- 1)"

definition print_last_epoch_summary :: "logger \<Rightarrow> outcome" where
  "print_last_epoch_summary s = print_epoch_summary s (- 1)"

section \<open>Notions used to state the properties\<close>

text \<open>Reading a decimal numeral back; it shows that the file name determines the epoch.\<close>

definition nat_of_str :: "string \<Rightarrow> nat" where
  "nat_of_str cs = foldl (\<lambda>a c. 10 * a + (of_char c - 48)) 0 cs"

text \<open>
  What the storage directory holds for a key and an epoch: \<open>is_array\<close> when the file
  is there and decodes, \<open>file_array\<close> the list it decodes to.
\<close>

definition file_array :: "logger \<Rightarrow> string \<Rightarrow> int \<Rightarrow> real list" where
  "file_array s k epoch =
     (case files s (epoch_path s k epoch) of Some (JsonArray xs) \<Rightarrow> xs | _ \<Rightarrow> [])"

definition is_array :: "logger \<Rightarrow> string \<Rightarrow> int \<Rightarrow> bool" where
  "is_array s k epoch =
     (case files s (epoch_path s k epoch) of Some (JsonArray xs) \<Rightarrow> True | _ \<Rightarrow> False)"

text \<open>The assignments \<open>r[k] = f(k)\<close> for the keys \<open>ks\<close> in order.\<close>

definition assign_all :: "(string \<Rightarrow> real list) \<Rightarrow> string list \<Rightarrow> epoch_info \<Rightarrow> epoch_info" where
  "assign_all f ks r = fold (\<lambda>k. AList.update k (f k)) ks r"

text \<open>The epoch record made of the files of one epoch, in the order of the declared keys.\<close>

definition loaded_epoch :: "logger \<Rightarrow> int \<Rightarrow> epoch_info" where
  "loaded_epoch s epoch = map (\<lambda>k. (k, file_array s k epoch)) (keys s)"

text \<open>What \<open>log_info\<close> accepts under a key, and the float it then appends.\<close>

definition is_float :: "pyval option \<Rightarrow> bool" where
  "is_float v = (case v of Some (PyFloat x) \<Rightarrow> True | _ \<Rightarrow> False)"

definition the_float :: "pyval option \<Rightarrow> real" where
  "the_float v = (case v of Some (PyFloat x) \<Rightarrow> x | _ \<Rightarrow> 0)"

text \<open>
  The key invariant of the store: every epoch record has the declared keys, each once,
  in the order of their declaration. \<open>same_length\<close> says that the sequences of one
  record are equally long.
\<close>

definition epoch_keys_ok :: "logger \<Rightarrow> bool" where
  "epoch_keys_ok s = list_all (\<lambda>r. map fst r = keys s) (info s)"

definition same_length :: "epoch_info \<Rightarrow> bool" where
  "same_length r = (\<forall>v\<in>set (map snd r). \<forall>w\<in>set (map snd r). length v = length w)"

text \<open>A key is a plain file name when there is no \<open>/\<close> in it.\<close>

definition plain_key :: "string \<Rightarrow> bool" where
  "plain_key k = (CHR ''/'' \<notin> set k)"

text \<open>
  Every chart of \<open>plot\<close> can be written: the scale of each declared key, given or
  defaulted, is one that \<open>plt.yscale\<close> accepts, and the file of its chart can be opened.
\<close>

definition plot_ready :: "logger \<Rightarrow> bool" where
  "plot_ready s =
     list_all (\<lambda>kv. plt_yscale (host s) (key_scale (snd kv)) = None
                   \<and> locate (host s) (chart_path s (fst kv)) \<noteq> None)
       (meta_info_dict s)"

text \<open>
  The methods a caller can invoke on a constructed logger, and a call of one of them.
  (\<open>load\<close> is left out of the type because it may not return; it is treated on its own.)
\<close>

datatype call =
    NewEpoch
  | LogInfo "string \<rightharpoonup> pyval"
  | Plot
  | SaveEpoch int
  | SaveLastEpoch
  | LoadEpoch int
  | PrintEpochSummary int
  | SaveEpochSummary int
  | SaveLastEpochSummary
  | PrintLastEpochSummary

fun invoke :: "call \<Rightarrow> logger \<Rightarrow> outcome" where
  "invoke NewEpoch s = new_epoch s"
| "invoke (LogInfo d) s = log_info s d"
| "invoke Plot s = plot s"
| "invoke (SaveEpoch e) s = save_epoch s e"
| "invoke SaveLastEpoch s = save_last_epoch s"
| "invoke (LoadEpoch e) s = load_epoch s e"
| "invoke (PrintEpochSummary e) s = print_epoch_summary s e"
| "invoke (SaveEpochSummary e) s = save_epoch_summary s e"
| "invoke SaveLastEpochSummary s = save_last_epoch_summary s"
| "invoke PrintLastEpochSummary s = print_last_epoch_summary s"

text \<open>A caller that goes on after an exception works on the state the failed call left.\<close>

fun invoke_all :: "call list \<Rightarrow> logger \<Rightarrow> logger" where
  "invoke_all [] s = s"
| "invoke_all (c # cs) s = invoke_all cs (state_of (invoke c s))"


section \<open>A running example\<close>

text \<open>
  The configuration of the specification's examples: two keys, the second with a linear
  scale, a period of two calls. \<open>demo epochs fs\<close> is a logger holding \<open>epochs\<close> over
  a storage directory holding \<open>fs\<close>.
\<close>

definition demo_meta :: "(string \<times> (string \<times> string) list) list" where
  "demo_meta = [(''loss'', []), (''acc'', [(''yscale'', ''linear'')])]"

text \<open>
  The platform of the examples: the working directory is the root, its one directory
  is \<open>logs\<close>, which holds no directory, a list of floats that is written is read back
  as it was, and the scales are those of matplotlib.
\<close>

definition demo_host :: platform where
  "demo_host =
     \<lparr>json_dump = JsonArray, locate = posix_locate [[''logs'']] [],
      plt_yscale = registered_scale\<rparr>"

definition demo :: "epoch_info list \<Rightarrow> (path \<rightharpoonup> content) \<Rightarrow> logger" where
  "demo epochs fs = (fresh_logger demo_meta ''logs'' True 2 demo_host fs)\<lparr>info := epochs\<rparr>"




text \<open>A storage directory in which two epochs were saved.\<close>

definition demo_files :: "path \<rightharpoonup> content" where
  "demo_files =
     map_of [((''logs'', ''loss_00.json''), JsonArray [0.5, 0.4]),
             ((''logs'', ''acc_00.json''), JsonArray [0.1, 0.2]),
             ((''logs'', ''loss_01.json''), JsonArray [0.3]),
             ((''logs'', ''acc_01.json''), JsonArray [0.25])]"

text \<open>A storage directory in which the second key of epoch 0 was never saved.\<close>

definition demo_partial :: "path \<rightharpoonup> content" where
  "demo_partial = map_of [((''logs'', ''loss_00.json''), JsonArray [0.5, 0.4])]"

section \<open>File names\<close>

lemma nat_of_str_snoc: "nat_of_str (cs @ [c]) = 10 * nat_of_str cs + (of_char c - 48)"
  by (simp add: nat_of_str_def)

lemma of_char_digit: "d < 10 \<Longrightarrow> of_char (digit_char d) - 48 = d"
  by (simp add: digit_char_def)

lemma nat_of_str_str_nat: "nat_of_str (str_nat n) = n"
proof (induction n rule: str_nat.induct)
  case (1 n)
  show ?case
  proof (cases "n < 10")
    case True
    then show ?thesis
      by (subst str_nat.simps) (simp add: nat_of_str_def of_char_digit)
  next
    case False
    with 1 have "nat_of_str (str_nat (n div 10)) = n div 10" by simp
    with False show ?thesis
      by (subst str_nat.simps) (simp add: nat_of_str_snoc of_char_digit)
  qed
qed

lemma nat_of_str_zero: "nat_of_str (CHR ''0'' # cs) = nat_of_str cs"
  by (simp add: nat_of_str_def)

lemma nat_of_str_fmt: "nat_of_str (fmt_02d (int n)) = n"
  by (simp add: fmt_02d_def nat_of_str_zero nat_of_str_str_nat)

lemma epoch_file_inj: "epoch_file k (int m) = epoch_file k (int n) \<Longrightarrow> m = n"
proof -
  assume "epoch_file k (int m) = epoch_file k (int n)"
  then have "fmt_02d (int m) = fmt_02d (int n)" by (simp add: epoch_file_def)
  then have "nat_of_str (fmt_02d (int m)) = nat_of_str (fmt_02d (int n))" by simp
  then show ?thesis by (simp add: nat_of_str_fmt)
qed

lemma epoch_file_key_inj: "epoch_file k e = epoch_file k' e \<Longrightarrow> k = k'"
  by (simp add: epoch_file_def)

section \<open>Assignments to an epoch record\<close>

lemma map_of_assign_all:
  "map_of (assign_all f ks r) k = (if k \<in> set ks then Some (f k) else map_of r k)"
  unfolding assign_all_def
  by (induction ks arbitrary: r) (auto simp: update_conv')

lemma keys_update_present:
  "k \<in> fst ` set r \<Longrightarrow> map fst (AList.update k v r) = map fst r"
  by (simp add: update_keys)

lemma keys_assign_all:
  "set ks \<subseteq> fst ` set r \<Longrightarrow> map fst (assign_all f ks r) = map fst r"
proof (induction ks arbitrary: r)
  case Nil
  then show ?case by (simp add: assign_all_def)
next
  case (Cons k ks)
  then have k: "k \<in> fst ` set r" by simp
  have eq: "map fst (AList.update k (f k) r) = map fst r"
    by (rule keys_update_present [OF k])
  then have "fst ` set (AList.update k (f k) r) = fst ` set r"
    by (metis set_map)
  with Cons.prems have "set ks \<subseteq> fst ` set (AList.update k (f k) r)" by simp
  then have "map fst (assign_all f ks (AList.update k (f k) r)) = map fst (AList.update k (f k) r)"
    by (rule Cons.IH)
  with eq show ?case by (simp add: assign_all_def)
qed

lemma alist_eqI:
  "map fst xs = map fst ys \<Longrightarrow> distinct (map fst xs) \<Longrightarrow> map_of xs = map_of ys \<Longrightarrow> xs = ys"
proof (induction xs arbitrary: ys)
  case Nil
  then show ?case by simp
next
  case (Cons x xs)
  then obtain y ys' where ys: "ys = y # ys'" by (cases ys) auto
  obtain k v where x: "x = (k, v)" by (cases x)
  obtain k' v' where y: "y = (k', v')" by (cases y)
  from Cons.prems ys x y have kk: "k' = k" and fs: "map fst xs = map fst ys'" by auto
  from Cons.prems(2) x have nk: "k \<notin> fst ` set xs" and d: "distinct (map fst xs)" by auto
  have pt: "map_of (x # xs) a = map_of ys a" for a
    by (simp only: Cons.prems(3))
  from pt [of k] ys x y kk have vv: "v = v'" by simp
  have "map_of xs = map_of ys'"
  proof
    fix a
    show "map_of xs a = map_of ys' a"
    proof (cases "a = k")
      case True
      from nk have "map_of xs k = None" by (simp add: map_of_eq_None_iff)
      moreover from nk fs have "k \<notin> fst ` set ys'" by (metis set_map)
      then have "map_of ys' k = None" by (simp add: map_of_eq_None_iff)
      ultimately show ?thesis using True by simp
    next
      case False
      with pt [of a] ys x y kk show ?thesis by simp
    qed
  qed
  with Cons.IH fs d have "xs = ys'" by blast
  with ys x y kk vv show ?case by simp
qed

lemma assign_all_fresh:
  assumes "distinct ks"
  shows "assign_all f ks (map (\<lambda>k. (k, g k)) ks) = map (\<lambda>k. (k, f k)) ks"
proof (rule alist_eqI)
  have sub: "set ks \<subseteq> fst ` set (map (\<lambda>k. (k, g k)) ks)" by force
  show "map fst (assign_all f ks (map (\<lambda>k. (k, g k)) ks)) = map fst (map (\<lambda>k. (k, f k)) ks)"
    by (simp add: keys_assign_all [OF sub] comp_def)
  then show "distinct (map fst (assign_all f ks (map (\<lambda>k. (k, g k)) ks)))"
    using assms by (simp add: comp_def)
  show "map_of (assign_all f ks (map (\<lambda>k. (k, g k)) ks)) = map_of (map (\<lambda>k. (k, f k)) ks)"
    by (rule ext) (simp add: map_of_assign_all map_of_map_restrict restrict_map_def)
qed

section \<open>Loading epochs\<close>

lemma load_epoch_loop_prefix:
  "info s \<noteq> [] \<Longrightarrow> \<forall>k\<in>set ks1. is_array s k e \<Longrightarrow>
   load_epoch_loop (ks1 @ rest) e s =
     load_epoch_loop rest e
       (s\<lparr>info := butlast (info s) @ [assign_all (\<lambda>k. file_array s k e) ks1 (last (info s))]\<rparr>)"
proof (induction ks1 arbitrary: s)
  case Nil
  then show ?case by (simp add: assign_all_def)
next
  case (Cons k ks1)
  let ?s1 = "s\<lparr>info := butlast (info s) @ [AList.update k (file_array s k e) (last (info s))]\<rparr>"
  from Cons.prems have arr: "files s (epoch_path s k e) = Some (JsonArray (file_array s k e))"
    by (auto simp: is_array_def file_array_def split: option.splits content.splits)
  have same: "\<And>k'. is_array ?s1 k' e = is_array s k' e" "\<And>k'. file_array ?s1 k' e = file_array s k' e"
    by (simp_all add: is_array_def file_array_def epoch_path_def)
  have "load_epoch_loop ((k # ks1) @ rest) e s = load_epoch_loop (ks1 @ rest) e ?s1"
    using Cons.prems(1) arr by simp
  also have "\<dots> = load_epoch_loop rest e
       (?s1\<lparr>info := butlast (info ?s1) @ [assign_all (\<lambda>k. file_array ?s1 k e) ks1 (last (info ?s1))]\<rparr>)"
    using Cons.prems(2) by (intro Cons.IH) (simp_all add: same)
  finally show ?case by (simp add: same assign_all_def)
qed

lemma info_update_frame [simp]:
  "keys (s\<lparr>info := X\<rparr>) = keys s"
  "epoch_path (s\<lparr>info := X\<rparr>) k e = epoch_path s k e"
  "is_array (s\<lparr>info := X\<rparr>) k e = is_array s k e"
  "file_array (s\<lparr>info := X\<rparr>) k e = file_array s k e"
  "loaded_epoch (s\<lparr>info := X\<rparr>) e = loaded_epoch s e"
  by (simp_all add: keys_def epoch_path_def is_array_def file_array_def loaded_epoch_def)

lemma load_epoch_complete:
  assumes "info s \<noteq> []" and "\<forall>k\<in>set (keys s). is_array s k e"
  shows "load_epoch s e =
           Inr (s\<lparr>info := butlast (info s) @
                  [assign_all (\<lambda>k. file_array s k e) (keys s) (last (info s))]\<rparr>)"
  using load_epoch_loop_prefix [OF assms(1), of "keys s" e "[]"] assms(2)
  by (simp add: load_epoch_def)

lemma load_epoch_missing:
  assumes "info s \<noteq> []" and "keys s = pre @ k # post"
    and "\<forall>k'\<in>set pre. is_array s k' e" and "files s (epoch_path s k e) = None"
  shows "load_epoch s e =
           Inl (FileNotFoundError,
                s\<lparr>info := butlast (info s) @
                  [assign_all (\<lambda>k. file_array s k e) pre (last (info s))]\<rparr>)"
proof -
  have "load_epoch s e = load_epoch_loop (pre @ k # post) e s"
    by (simp add: load_epoch_def assms(2))
  also have "\<dots> = load_epoch_loop (k # post) e
       (s\<lparr>info := butlast (info s) @ [assign_all (\<lambda>k. file_array s k e) pre (last (info s))]\<rparr>)"
    by (rule load_epoch_loop_prefix [OF assms(1) assms(3)])
  also have "\<dots> = Inl (FileNotFoundError,
                s\<lparr>info := butlast (info s) @
                  [assign_all (\<lambda>k. file_array s k e) pre (last (info s))]\<rparr>)"
    using assms(4) by (simp add: epoch_path_def)
  finally show ?thesis .
qed

lemma new_epoch_loading:
  "is_loading s \<Longrightarrow> new_epoch s = Inr (s\<lparr>info := info s @ [map (\<lambda>k. (k, [])) (keys s)]\<rparr>)"
  by (simp add: new_epoch_def)

lemma load_loop_step_complete:
  assumes "is_loading s" and "distinct (keys s)" and "\<forall>k\<in>set (keys s). is_array s k e"
  shows "load_loop s e = load_loop (s\<lparr>info := info s @ [loaded_epoch s e]\<rparr>) (e + 1)"
proof -
  let ?s1 = "s\<lparr>info := info s @ [map (\<lambda>k. (k, [])) (keys s)]\<rparr>"
  have "load_epoch ?s1 e =
          Inr (?s1\<lparr>info := butlast (info ?s1) @
                  [assign_all (\<lambda>k. file_array ?s1 k e) (keys ?s1) (last (info ?s1))]\<rparr>)"
    using assms(3) by (intro load_epoch_complete) simp_all
  then have "load_epoch ?s1 e = Inr (s\<lparr>info := info s @ [loaded_epoch s e]\<rparr>)"
    by (simp add: assign_all_fresh [OF assms(2)] loaded_epoch_def)
  then show ?thesis
    by (subst load_loop.simps) (simp add: new_epoch_loading [OF assms(1)])
qed

lemma load_loop_step_missing:
  assumes "is_loading s" and "keys s = pre @ k # post"
    and "\<forall>k'\<in>set pre. is_array s k' e" and "files s (epoch_path s k e) = None"
  shows "load_loop s e = Some (Inr (s\<lparr>is_loading := False\<rparr>))"
proof -
  let ?s1 = "s\<lparr>info := info s @ [map (\<lambda>k. (k, [])) (keys s)]\<rparr>"
  have a: "info ?s1 \<noteq> []" by simp
  have b: "keys ?s1 = pre @ k # post" by (simp only: info_update_frame assms(2))
  have c: "\<forall>k'\<in>set pre. is_array ?s1 k' e" using assms(3) by simp
  have d: "files ?s1 (epoch_path ?s1 k e) = None" using assms(4) by simp
  have "load_epoch ?s1 e =
          Inl (FileNotFoundError, ?s1\<lparr>info := butlast (info ?s1) @
                  [assign_all (\<lambda>k. file_array ?s1 k e) pre (last (info ?s1))]\<rparr>)"
    by (rule load_epoch_missing [OF a b c d])
  then show ?thesis
    by (subst load_loop.simps) (simp add: new_epoch_loading [OF assms(1)])
qed

lemma load_loop_run:
  assumes "is_loading s" and "distinct (keys s)"
    and "\<forall>e. m \<le> e \<and> e < n \<longrightarrow> (\<forall>k\<in>set (keys s). is_array s k (int e))"
    and "keys s = pre @ k # post" and "\<forall>k'\<in>set pre. is_array s k' (int n)"
    and "files s (epoch_path s k (int n)) = None" and "m \<le> n"
  shows "load_loop s (int m) =
           Some (Inr (s\<lparr>info := info s @ map (\<lambda>e. loaded_epoch s (int e)) [m..<n],
                       is_loading := False\<rparr>))"
  using assms
proof (induction "n - m" arbitrary: m s)
  case 0
  then have "m = n" by simp
  with 0 show ?case
    by (simp add: load_loop_step_missing [of _ pre k post])
next
  case (Suc d)
  then have lt: "m < n" by simp
  let ?s2 = "s\<lparr>info := info s @ [loaded_epoch s (int m)]\<rparr>"
  from Suc.prems lt have "\<forall>k\<in>set (keys s). is_array s k (int m)" by simp
  with Suc.prems have "load_loop s (int m) = load_loop ?s2 (int m + 1)"
    by (intro load_loop_step_complete) simp_all
  also have "int m + 1 = int (Suc m)" by simp
  also have "load_loop ?s2 (int (Suc m)) =
      Some (Inr (?s2\<lparr>info := info ?s2 @ map (\<lambda>e. loaded_epoch ?s2 (int e)) [Suc m..<n],
                       is_loading := False\<rparr>))"
    using Suc.hyps(2) Suc.prems lt
    by (intro Suc.hyps(1)) simp_all
  finally show ?case using lt by (simp add: upt_conv_Cons)
qed

text \<open>With no declared key \<open>load_epoch\<close> cannot raise, and the loop of \<open>load\<close> never ends.\<close>

lemma none_admissible:
  "ccpo.admissible (flat_lub None) (flat_ord None) (\<lambda>y. c \<longrightarrow> y = None)"
proof (rule ccpo.admissibleI)
  fix A :: "'a option set"
  assume "\<forall>y\<in>A. c \<longrightarrow> y = None"
  then have "c \<Longrightarrow> A \<subseteq> {None}" by auto
  then show "c \<longrightarrow> flat_lub None A = None" by (auto simp: flat_lub_def)
qed

lemma load_loop_no_keys:
  "keys s = [] \<and> is_loading s \<longrightarrow> load_loop s e = None"
proof -
  have "\<forall>x. (keys (fst x) = [] \<and> is_loading (fst x) \<longrightarrow> (case x of (s, e) \<Rightarrow> load_loop s e) = None)"
  proof (rule load_loop.fixp_induct
      [where P = "\<lambda>f. \<forall>x. (keys (fst x) = [] \<and> is_loading (fst x) \<longrightarrow> (case x of (s, e) \<Rightarrow> f s e) = None)"])
    show "option.admissible (\<lambda>f. \<forall>x. keys (fst x) = [] \<and> is_loading (fst x) \<longrightarrow>
              (case x of (s, e) \<Rightarrow> curry f s e) = None)"
      using admissible_fun [where Q = "\<lambda>x y. keys (fst x) = [] \<and> is_loading (fst x) \<longrightarrow> y = None",
          OF flat_interpretation none_admissible]
      by (simp add: split_beta)
    show "\<forall>x. keys (fst x) = [] \<and> is_loading (fst x) \<longrightarrow> (case x of (s, e) \<Rightarrow> None) = None"
      by (simp add: split_beta)
  next
    fix f :: "logger \<Rightarrow> int \<Rightarrow> outcome option"
    assume IH: "\<forall>x. keys (fst x) = [] \<and> is_loading (fst x) \<longrightarrow> (case x of (s, e) \<Rightarrow> f s e) = None"
    show "\<forall>x. keys (fst x) = [] \<and> is_loading (fst x) \<longrightarrow>
        (case x of (s, e) \<Rightarrow>
           (case new_epoch s of
              Inl err \<Rightarrow> Some (Inl err)
            | Inr s1 \<Rightarrow>
                (case load_epoch s1 e of
                   Inl (er, s2) \<Rightarrow>
                     (if er = FileNotFoundError then
                        (if info s2 = [] then Some (Inl (IndexError, s2))
                         else Some (Inr (s2\<lparr>info := butlast (info s2), is_loading := False\<rparr>)))
                      else Some (Inl (er, s2)))
                 | Inr s2 \<Rightarrow> f s2 (e + 1)))) = None"
    proof (intro allI impI)
      fix x :: "logger \<times> int"
      assume h: "keys (fst x) = [] \<and> is_loading (fst x)"
      obtain s e where x: "x = (s, e)" by (cases x)
      let ?t = "s\<lparr>info := info s @ [map (\<lambda>k. (k, [])) (keys s)]\<rparr>"
      from h x have n: "new_epoch s = Inr ?t" by (simp add: new_epoch_loading)
      from h x have l: "load_epoch ?t e = Inr ?t" by (simp add: load_epoch_def)
      from h x IH [rule_format, of "(?t, e + 1)"] have "f ?t (e + 1) = None" by simp
      with n l x show "(case x of (s, e) \<Rightarrow>
           (case new_epoch s of
              Inl err \<Rightarrow> Some (Inl err)
            | Inr s1 \<Rightarrow>
                (case load_epoch s1 e of
                   Inl (er, s2) \<Rightarrow>
                     (if er = FileNotFoundError then
                        (if info s2 = [] then Some (Inl (IndexError, s2))
                         else Some (Inr (s2\<lparr>info := butlast (info s2), is_loading := False\<rparr>)))
                      else Some (Inl (er, s2)))
                 | Inr s2 \<Rightarrow> f s2 (e + 1)))) = None"
        by simp
    qed
  qed
  then show ?thesis by (metis fst_conv old.prod.case)
qed

lemma Logger_init_no_keys: "Logger_init [] dir pp per h fs = None"
  using load_loop_no_keys [of "(fresh_logger [] dir pp per h fs)\<lparr>is_loading := True\<rparr>" 0]
  by (simp add: Logger_init_def load_def keys_def fresh_logger_def)

lemma exists_missing_epoch:
  assumes "finite (dom fs)"
  shows "\<exists>n. fs (d, epoch_file k (int n)) = None"
proof (rule ccontr)
  assume "\<not> (\<exists>n. fs (d, epoch_file k (int n)) = None)"
  then have "range (\<lambda>n. (d, epoch_file k (int n))) \<subseteq> dom fs" by auto
  moreover have "inj (\<lambda>n. (d, epoch_file k (int n)))"
    by (rule injI) (auto dest: epoch_file_inj)
  ultimately have "finite (UNIV :: nat set)"
    using assms by (meson finite_subset finite_imageD)
  then show False by simp
qed

lemma epoch_file_small [simp]:
  "epoch_file k 0 = k @ ''_00.json''"
  "epoch_file k 1 = k @ ''_01.json''"
  "epoch_file k 2 = k @ ''_02.json''"
  by (simp_all add: epoch_file_def fmt_02d_def str_nat.simps digit_char_def char_of_def bit_0)

lemma is_array_iff:
  "files s (epoch_path s k e) \<noteq> Some NotJson \<Longrightarrow>
   is_array s k e \<longleftrightarrow> files s (epoch_path s k e) \<noteq> None"
  by (auto simp: is_array_def split: option.splits content.splits)

lemma fresh_logger_loaded:
  "(fresh_logger meta dir pp per h fs)\<lparr>is_loading := True\<rparr>
     \<lparr>info := info ((fresh_logger meta dir pp per h fs)\<lparr>is_loading := True\<rparr>) @
        map (\<lambda>e. loaded_epoch ((fresh_logger meta dir pp per h fs)\<lparr>is_loading := True\<rparr>) (int e))
          [0..<n],
      is_loading := False\<rparr> =
   (fresh_logger meta dir pp per h fs)
     \<lparr>info := map (\<lambda>e. loaded_epoch (fresh_logger meta dir pp per h fs) (int e)) [0..<n]\<rparr>"
  apply (simp add: fresh_logger_def)
  apply (simp add: loaded_epoch_def)
  apply (simp add: file_array_def keys_def epoch_path_def)
  done

lemma load_fresh_logger:
  assumes "ks \<noteq> []" and "distinct ks" and "ks = map fst meta"
    and "finite (dom fs)" and "\<forall>p. fs p \<noteq> Some NotJson"
  shows "\<exists>n. Logger_init meta dir pp per h fs =
              Some (Inr ((fresh_logger meta dir pp per h fs)
                \<lparr>info := map (\<lambda>e. loaded_epoch (fresh_logger meta dir pp per h fs) (int e)) [0..<n]\<rparr>))
            \<and> (\<forall>e<n. \<forall>k\<in>set ks. fs (dir, epoch_file k (int e)) \<noteq> None)
            \<and> (\<exists>k\<in>set ks. fs (dir, epoch_file k (int n)) = None)"
proof -
  let ?init = "fresh_logger meta dir pp per h fs"
  let ?st = "?init\<lparr>is_loading := True\<rparr>"
  define Q where "Q n \<longleftrightarrow> (\<exists>k\<in>set ks. fs (dir, epoch_file k (int n)) = None)" for n
  from assms(1) obtain k0 where k0: "k0 \<in> set ks" by (cases ks) auto
  from exists_missing_epoch [OF assms(4), of dir k0] k0 have "\<exists>n. Q n"
    unfolding Q_def by auto
  then have Qn: "Q (LEAST n. Q n)" by (rule LeastI_ex)
  define n where "n = (LEAST n. Q n)"
  have least: "\<not> Q e" if "e < n" for e
    using that unfolding n_def by (rule not_less_Least)
  have ks: "keys ?st = ks" by (simp add: keys_def fresh_logger_def assms(3))
  have fl: "files ?st = fs" by (simp add: fresh_logger_def)
  have pa: "epoch_path ?st k e = (dir, epoch_file k e)" for k e
    by (simp add: epoch_path_def fresh_logger_def)
  have arr: "is_array ?st k e \<longleftrightarrow> fs (dir, epoch_file k e) \<noteq> None" for k e
    using is_array_iff [of ?st k e] assms(5) by (simp add: fl pa)
  from Qn have "\<exists>k\<in>set ks. fs (dir, epoch_file k (int n)) = None"
    by (simp only: Q_def n_def)
  then obtain pre k post where split: "ks = pre @ k # post"
    and miss: "fs (dir, epoch_file k (int n)) = None"
    and before: "\<forall>k'\<in>set pre. fs (dir, epoch_file k' (int n)) \<noteq> None"
    by (auto dest!: split_list_first_prop)
  have run: "load_loop ?st (int 0) =
           Some (Inr (?st\<lparr>info := info ?st @ map (\<lambda>e. loaded_epoch ?st (int e)) [0..<n],
                       is_loading := False\<rparr>))"
  proof (rule load_loop_run [where pre = pre and k = k and post = post])
    show "is_loading ?st" by simp
    show "distinct (keys ?st)" using assms(2) by (simp only: ks)
    show "keys ?st = pre @ k # post" using split by (simp only: ks)
    show "\<forall>e. 0 \<le> e \<and> e < n \<longrightarrow> (\<forall>k\<in>set (keys ?st). is_array ?st k (int e))"
    proof (intro allI impI ballI)
      fix e k' assume e: "0 \<le> e \<and> e < n" and "k' \<in> set (keys ?st)"
      then have k': "k' \<in> set ks" by (simp only: ks)
      from e have "\<not> Q e" by (simp add: least)
      with k' have "fs (dir, epoch_file k' (int e)) \<noteq> None" unfolding Q_def by auto
      then show "is_array ?st k' (int e)" by (rule arr [THEN iffD2])
    qed
    show "\<forall>k'\<in>set pre. is_array ?st k' (int n)"
    proof
      fix k' assume "k' \<in> set pre"
      with before have "fs (dir, epoch_file k' (int n)) \<noteq> None" by (rule bspec)
      then show "is_array ?st k' (int n)" by (rule arr [THEN iffD2])
    qed
    show "files ?st (epoch_path ?st k (int n)) = None" using miss by (simp only: fl pa)
    show "0 \<le> n" by simp
  qed
  note fin = fresh_logger_loaded [of meta dir pp per h fs n]
  have r1: "Logger_init meta dir pp per h fs =
              Some (Inr (?init\<lparr>info := map (\<lambda>e. loaded_epoch ?init (int e)) [0..<n]\<rparr>))"
    using run by (simp only: Logger_init_def load_def fin of_nat_0)
  have r2: "\<forall>e<n. \<forall>k\<in>set ks. fs (dir, epoch_file k (int e)) \<noteq> None"
    using least unfolding Q_def by auto
  have r3: "\<exists>k\<in>set ks. fs (dir, epoch_file k (int n)) = None"
    using Qn by (simp only: Q_def n_def)
  show ?thesis
  proof (intro exI conjI)
    show "Logger_init meta dir pp per h fs =
              Some (Inr (?init\<lparr>info := map (\<lambda>e. loaded_epoch ?init (int e)) [0..<n]\<rparr>))"
      by (fact r1)
    show "\<forall>e<n. \<forall>k\<in>set ks. fs (dir, epoch_file k (int e)) \<noteq> None" by (fact r2)
    show "\<exists>k\<in>set ks. fs (dir, epoch_file k (int n)) = None" by (fact r3)
  qed
qed


text \<open>
  C1, amended. When some key is declared and the storage directory holds finitely many
  files, each of which decodes, the constructor returns, and the store then holds
  exactly the epochs \<open>0 .. n - 1\<close> read from the files, in order, where \<open>n\<close> is the
  first epoch for which the file of some declared key is missing. No epoch is open:
  the record that \<open>load\<close> had appended for epoch \<open>n\<close> is deleted again, and nothing else
  of the state differs from the freshly initialised logger. (With no declared key the
  constructor does not return, by \<open>Logger_init_no_keys\<close>.)
\<close>

theorem Logger_init_resume:
  assumes "meta \<noteq> []" and "distinct (map fst meta)"
    and "finite (dom fs)" and "\<forall>p. fs p \<noteq> Some NotJson"
  shows "\<exists>n. Logger_init meta dir pp per h fs =
              Some (Inr ((fresh_logger meta dir pp per h fs)
                \<lparr>info := map (\<lambda>e. loaded_epoch (fresh_logger meta dir pp per h fs) (int e)) [0..<n]\<rparr>))
            \<and> (\<forall>e<n. \<forall>k\<in>set (map fst meta). fs (dir, epoch_file k (int e)) \<noteq> None)
            \<and> (\<exists>k\<in>set (map fst meta). fs (dir, epoch_file k (int n)) = None)"
proof (rule load_fresh_logger)
  show "map fst meta \<noteq> []" using assms(1) by simp
  show "distinct (map fst meta)" by (fact assms(2))
  show "map fst meta = map fst meta" by (rule refl)
  show "finite (dom fs)" by (fact assms(3))
  show "\<forall>p. fs p \<noteq> Some NotJson" by (fact assms(4))
qed

lemma demo_files_decode: "\<forall>p. demo_files p \<noteq> Some NotJson"
  by (simp add: demo_files_def)

lemma Logger_init_demo_files:
  "Logger_init demo_meta ''logs'' True 2 demo_host demo_files =
     Some (Inr (demo [[(''loss'', [0.5, 0.4]), (''acc'', [0.1, 0.2])],
                      [(''loss'', [0.3]), (''acc'', [0.25])]] demo_files))"
  apply (simp add: Logger_init_def load_def demo_def)
  apply (subst load_loop.simps)
  apply (simp add: new_epoch_def load_epoch_def keys_def fresh_logger_def demo_meta_def
      epoch_path_def demo_files_def)
  apply (subst load_loop.simps)
  apply (simp add: new_epoch_def load_epoch_def keys_def fresh_logger_def demo_meta_def
      epoch_path_def demo_files_def)
  apply (subst load_loop.simps)
  apply (simp add: new_epoch_def load_epoch_def keys_def fresh_logger_def demo_meta_def
      epoch_path_def demo_files_def)
  done

theorem Logger_init_resume_witness:
  "demo_meta \<noteq> [] \<and> distinct (map fst demo_meta) \<and> finite (dom demo_files)
   \<and> (\<forall>p. demo_files p \<noteq> Some NotJson)
   \<and> (\<exists>n. Logger_init demo_meta ''logs'' True 2 demo_host demo_files =
              Some (Inr ((fresh_logger demo_meta ''logs'' True 2 demo_host demo_files)
                \<lparr>info := map (\<lambda>e. loaded_epoch (fresh_logger demo_meta ''logs'' True 2 demo_host demo_files) (int e))
                           [0..<n]\<rparr>))
            \<and> (\<forall>e<n. \<forall>k\<in>set (map fst demo_meta). demo_files (''logs'', epoch_file k (int e)) \<noteq> None)
            \<and> (\<exists>k\<in>set (map fst demo_meta). demo_files (''logs'', epoch_file k (int n)) = None))
   \<and> Logger_init demo_meta ''logs'' True 2 demo_host demo_files =
       Some (Inr (demo [[(''loss'', [0.5, 0.4]), (''acc'', [0.1, 0.2])],
                        [(''loss'', [0.3]), (''acc'', [0.25])]] demo_files))"
proof -
  have a: "demo_meta \<noteq> []" by (simp add: demo_meta_def)
  have b: "distinct (map fst demo_meta)" by (simp add: demo_meta_def)
  have c: "finite (dom demo_files)" by (simp add: demo_files_def)
  note d = demo_files_decode
  from Logger_init_resume [OF a b c d, of "''logs''" True 2 demo_host] a b c d Logger_init_demo_files
  show ?thesis by (intro conjI)
qed

text \<open>
  C1, as stated, fails: over an empty storage directory the constructor leaves \<open>info\<close>
  empty, so there is no open epoch 0 whose keys are mapped to empty sequences.
\<close>

theorem Logger_init_empty_directory:
  "Logger_init demo_meta ''logs'' True 2 demo_host Map.empty = Some (Inr (demo [] Map.empty))
   \<and> info (demo [] Map.empty) = []"
  apply (simp add: Logger_init_def load_def demo_def)
  apply (subst load_loop.simps)
  apply (simp add: new_epoch_def load_epoch_def keys_def fresh_logger_def demo_meta_def
      epoch_path_def)
  done

lemma load_epoch_demo_partial:
  "load_epoch (demo [[(''loss'', [0.7]), (''acc'', [0.9])]] demo_partial) 0 =
     Inl (FileNotFoundError, demo [[(''loss'', [0.5, 0.4]), (''acc'', [0.9])]] demo_partial)"
  by (simp add: load_epoch_def demo_def keys_def fresh_logger_def demo_meta_def epoch_path_def
      demo_partial_def)

lemma load_epoch_demo_files:
  "load_epoch (demo [[(''loss'', [0.7]), (''acc'', [0.9])], [(''loss'', []), (''acc'', [])]] demo_files) 0 =
     Inr (demo [[(''loss'', [0.7]), (''acc'', [0.9])], [(''loss'', [0.5, 0.4]), (''acc'', [0.1, 0.2])]] demo_files)"
  by (simp add: load_epoch_def demo_def keys_def fresh_logger_def demo_meta_def epoch_path_def
      demo_files_def)


text \<open>
  C5. When an epoch is open (\<open>info\<close> is not empty) and the files of the requested epoch
  that exist decode, \<open>load_epoch\<close> either finds the file of every declared key, and then
  returns with the last record of \<open>info\<close> holding, under each declared key, the list read
  from that key's file, every other record (the one at index \<open>e\<close> among them, unless it
  is the last) and every other field unchanged; or some declared key's file is missing,
  and then it raises FileNotFoundError.
\<close>

theorem load_epoch_open_epoch:
  assumes "info s \<noteq> []"
    and "\<forall>k\<in>set (keys s). files s (epoch_path s k e) \<noteq> Some NotJson"
  shows "((\<forall>k\<in>set (keys s). files s (epoch_path s k e) \<noteq> None) \<longrightarrow>
            (\<exists>r. load_epoch s e = Inr (s\<lparr>info := butlast (info s) @ [r]\<rparr>)
               \<and> (\<forall>k\<in>set (keys s). map_of r k = Some (file_array s k e))
               \<and> (\<forall>k. k \<notin> set (keys s) \<longrightarrow> map_of r k = map_of (last (info s)) k)))
       \<and> ((\<exists>k\<in>set (keys s). files s (epoch_path s k e) = None) \<longrightarrow>
            (\<exists>s'. load_epoch s e = Inl (FileNotFoundError, s')))"
proof (intro conjI impI)
  assume all: "\<forall>k\<in>set (keys s). files s (epoch_path s k e) \<noteq> None"
  have arr: "\<forall>k\<in>set (keys s). is_array s k e"
  proof
    fix k assume k: "k \<in> set (keys s)"
    with all assms(2) show "is_array s k e" by (simp add: is_array_iff)
  qed
  let ?r = "assign_all (\<lambda>k. file_array s k e) (keys s) (last (info s))"
  have "load_epoch s e = Inr (s\<lparr>info := butlast (info s) @ [?r]\<rparr>)"
    by (rule load_epoch_complete [OF assms(1) arr])
  moreover have "\<forall>k\<in>set (keys s). map_of ?r k = Some (file_array s k e)"
    by (simp add: map_of_assign_all)
  moreover have "\<forall>k. k \<notin> set (keys s) \<longrightarrow> map_of ?r k = map_of (last (info s)) k"
    by (simp add: map_of_assign_all)
  ultimately show "\<exists>r. load_epoch s e = Inr (s\<lparr>info := butlast (info s) @ [r]\<rparr>)
               \<and> (\<forall>k\<in>set (keys s). map_of r k = Some (file_array s k e))
               \<and> (\<forall>k. k \<notin> set (keys s) \<longrightarrow> map_of r k = map_of (last (info s)) k)"
    by (intro exI [of _ ?r] conjI)
next
  assume "\<exists>k\<in>set (keys s). files s (epoch_path s k e) = None"
  then obtain pre k post where split: "keys s = pre @ k # post"
    and miss: "files s (epoch_path s k e) = None"
    and before: "\<forall>k'\<in>set pre. files s (epoch_path s k' e) \<noteq> None"
    by (auto dest!: split_list_first_prop)
  have arr: "\<forall>k'\<in>set pre. is_array s k' e"
  proof
    fix k' assume k': "k' \<in> set pre"
    with split have "k' \<in> set (keys s)" by simp
    with assms(2) have "files s (epoch_path s k' e) \<noteq> Some NotJson" by (rule bspec)
    moreover from before k' have "files s (epoch_path s k' e) \<noteq> None" by (rule bspec)
    ultimately show "is_array s k' e" by (simp add: is_array_iff)
  qed
  from load_epoch_missing [OF assms(1) split arr miss]
  show "\<exists>s'. load_epoch s e = Inl (FileNotFoundError, s')" by (rule exI)
qed

text \<open>
  C10. \<open>load_epoch\<close> is not atomic: when the file of a declared key is missing and the
  files of the keys before it are there, it raises FileNotFoundError after having
  replaced, in the open epoch, the sequences of exactly those earlier keys by the lists
  read from their files; the sequences of the other keys are as they were. The witness
  shows an open epoch left partially overwritten.
\<close>

theorem load_epoch_not_atomic:
  assumes "info s \<noteq> []" and "keys s = pre @ k # post"
    and "\<forall>k'\<in>set pre. is_array s k' e" and "files s (epoch_path s k e) = None"
  shows "\<exists>r. load_epoch s e = Inl (FileNotFoundError, s\<lparr>info := butlast (info s) @ [r]\<rparr>)
           \<and> (\<forall>k'\<in>set pre. map_of r k' = Some (file_array s k' e))
           \<and> (\<forall>k'. k' \<notin> set pre \<longrightarrow> map_of r k' = map_of (last (info s)) k')"
proof -
  let ?r = "assign_all (\<lambda>k. file_array s k e) pre (last (info s))"
  have "load_epoch s e = Inl (FileNotFoundError, s\<lparr>info := butlast (info s) @ [?r]\<rparr>)"
    by (rule load_epoch_missing [OF assms])
  moreover have "\<forall>k'\<in>set pre. map_of ?r k' = Some (file_array s k' e)"
    by (simp add: map_of_assign_all)
  moreover have "\<forall>k'. k' \<notin> set pre \<longrightarrow> map_of ?r k' = map_of (last (info s)) k'"
    by (simp add: map_of_assign_all)
  ultimately show ?thesis by (intro exI [of _ ?r] conjI)
qed

theorem load_epoch_open_epoch_witness:
  "info (demo [[(''loss'', [0.7]), (''acc'', [0.9])], [(''loss'', []), (''acc'', [])]] demo_files) \<noteq> []
   \<and> keys (demo [[(''loss'', [0.7]), (''acc'', [0.9])], [(''loss'', []), (''acc'', [])]] demo_files) =
       [''loss'', ''acc'']
   \<and> demo_files (''logs'', epoch_file ''loss'' 0) = Some (JsonArray [0.5, 0.4])
   \<and> demo_files (''logs'', epoch_file ''acc'' 0) = Some (JsonArray [0.1, 0.2])
   \<and> load_epoch (demo [[(''loss'', [0.7]), (''acc'', [0.9])], [(''loss'', []), (''acc'', [])]] demo_files) 0 =
       Inr (demo [[(''loss'', [0.7]), (''acc'', [0.9])],
                  [(''loss'', [0.5, 0.4]), (''acc'', [0.1, 0.2])]] demo_files)
   \<and> demo_partial (''logs'', epoch_file ''loss'' 0) = Some (JsonArray [0.5, 0.4])
   \<and> demo_partial (''logs'', epoch_file ''acc'' 0) = None
   \<and> (\<exists>s'. load_epoch (demo [[(''loss'', [0.7]), (''acc'', [0.9])]] demo_partial) 0 =
              Inl (FileNotFoundError, s'))"
proof -
  let ?full = "demo [[(''loss'', [0.7]), (''acc'', [0.9])], [(''loss'', []), (''acc'', [])]] demo_files"
  let ?part = "demo [[(''loss'', [0.7]), (''acc'', [0.9])]] demo_partial"
  have a: "info ?full \<noteq> []" by (simp add: demo_def)
  have k: "keys ?full = [''loss'', ''acc'']"
    by (simp add: demo_def keys_def fresh_logger_def demo_meta_def)
  have f: "demo_files (''logs'', epoch_file ''loss'' 0) = Some (JsonArray [0.5, 0.4])"
    "demo_files (''logs'', epoch_file ''acc'' 0) = Some (JsonArray [0.1, 0.2])"
    by (simp_all add: demo_files_def)
  have b: "\<forall>k\<in>set (keys ?full). files ?full (epoch_path ?full k 0) \<noteq> Some NotJson"
    by (simp add: k) (simp add: demo_def fresh_logger_def epoch_path_def demo_files_def)
  have a': "info ?part \<noteq> []" by (simp add: demo_def)
  have p: "demo_partial (''logs'', epoch_file ''loss'' 0) = Some (JsonArray [0.5, 0.4])"
    "demo_partial (''logs'', epoch_file ''acc'' 0) = None"
    by (simp_all add: demo_partial_def)
  have b': "\<forall>k\<in>set (keys ?part). files ?part (epoch_path ?part k 0) \<noteq> Some NotJson"
    by (simp add: demo_def keys_def fresh_logger_def demo_meta_def epoch_path_def demo_partial_def)
  have m: "\<exists>k\<in>set (keys ?part). files ?part (epoch_path ?part k 0) = None"
    by (simp add: demo_def keys_def fresh_logger_def demo_meta_def epoch_path_def demo_partial_def)
  from load_epoch_open_epoch [OF a' b'] m
  have "\<exists>s'. load_epoch ?part 0 = Inl (FileNotFoundError, s')" by (rule conjunct2 [THEN mp])
  with a k f p load_epoch_demo_files show ?thesis by (intro conjI)
qed

theorem load_epoch_not_atomic_witness:
  "info (demo [[(''loss'', [0.7]), (''acc'', [0.9])]] demo_partial) \<noteq> []
   \<and> keys (demo [[(''loss'', [0.7]), (''acc'', [0.9])]] demo_partial) = [''loss''] @ ''acc'' # []
   \<and> is_array (demo [[(''loss'', [0.7]), (''acc'', [0.9])]] demo_partial) ''loss'' 0
   \<and> files (demo [[(''loss'', [0.7]), (''acc'', [0.9])]] demo_partial)
        (epoch_path (demo [[(''loss'', [0.7]), (''acc'', [0.9])]] demo_partial) ''acc'' 0) = None
   \<and> (\<exists>r. load_epoch (demo [[(''loss'', [0.7]), (''acc'', [0.9])]] demo_partial) 0 =
             Inl (FileNotFoundError,
                  (demo [[(''loss'', [0.7]), (''acc'', [0.9])]] demo_partial)
                    \<lparr>info := butlast (info (demo [[(''loss'', [0.7]), (''acc'', [0.9])]] demo_partial)) @ [r]\<rparr>)
           \<and> map_of r ''loss'' = Some [0.5, 0.4] \<and> map_of r ''acc'' = Some [0.9])
   \<and> load_epoch (demo [[(''loss'', [0.7]), (''acc'', [0.9])]] demo_partial) 0 =
       Inl (FileNotFoundError, demo [[(''loss'', [0.5, 0.4]), (''acc'', [0.9])]] demo_partial)"
proof -
  let ?part = "demo [[(''loss'', [0.7]), (''acc'', [0.9])]] demo_partial"
  have a: "info ?part \<noteq> []" by (simp add: demo_def)
  have k: "keys ?part = [''loss''] @ ''acc'' # []"
    by (simp add: demo_def keys_def fresh_logger_def demo_meta_def)
  have i: "is_array ?part ''loss'' 0"
    by (simp add: is_array_def demo_def fresh_logger_def epoch_path_def demo_partial_def)
  then have i': "\<forall>k'\<in>set [''loss'']. is_array ?part k' 0" by simp
  have m: "files ?part (epoch_path ?part ''acc'' 0) = None"
    by (simp add: demo_def fresh_logger_def epoch_path_def demo_partial_def)
  have fa: "file_array ?part ''loss'' 0 = [0.5, 0.4]"
    by (simp add: file_array_def demo_def fresh_logger_def epoch_path_def demo_partial_def)
  have la: "map_of (last (info ?part)) ''acc'' = Some [0.9]" by (simp add: demo_def)
  from load_epoch_not_atomic [OF a k i' m] obtain r where
    r: "load_epoch ?part 0 = Inl (FileNotFoundError, ?part\<lparr>info := butlast (info ?part) @ [r]\<rparr>)"
    and r1: "\<forall>k'\<in>set [''loss'']. map_of r k' = Some (file_array ?part k' 0)"
    and r2: "\<forall>k'. k' \<notin> set [''loss''] \<longrightarrow> map_of r k' = map_of (last (info ?part)) k'"
    by blast
  from r1 fa have "map_of r ''loss'' = Some [0.5, 0.4]" by simp
  moreover from r2 la have "map_of r ''acc'' = Some [0.9]" by simp
  ultimately have "\<exists>r. load_epoch ?part 0 =
             Inl (FileNotFoundError, ?part\<lparr>info := butlast (info ?part) @ [r]\<rparr>)
           \<and> map_of r ''loss'' = Some [0.5, 0.4] \<and> map_of r ''acc'' = Some [0.9]"
    using r by blast
  with a k i m load_epoch_demo_partial show ?thesis by (intro conjI)
qed

section \<open>Names and files\<close>

lemma split_from_plain: "CHR ''/'' \<notin> set n \<Longrightarrow> split_from w n = [w @ n]"
  by (induction n arbitrary: w) auto

lemma split_from_nonempty: "split_from w a \<noteq> []"
  by (induction a arbitrary: w) simp_all

lemma split_from_append:
  "split_from w (a @ b) = butlast (split_from w a) @ split_from (last (split_from w a)) b"
  by (induction a arbitrary: w) (simp_all add: split_from_nonempty)

lemma split_from_last_slash:
  "a \<noteq> [] \<Longrightarrow> last a = CHR ''/'' \<Longrightarrow> last (split_from w a) = []"
proof (induction a arbitrary: w)
  case Nil
  then show ?case by simp
next
  case (Cons c a)
  then show ?case by (cases a) (auto simp: split_from_nonempty)
qed

lemma walk_append:
  "walk ds cur (xs @ ys) = (case walk ds cur xs of None \<Rightarrow> None | Some c \<Rightarrow> walk ds c ys)"
  by (induction xs arbitrary: cur) simp_all

lemma walk_butlast_empty:
  assumes "xs \<noteq> []" and "last xs = []"
  shows "walk ds cur xs = walk ds cur (butlast xs)"
proof -
  from assms have "xs = butlast xs @ [[]]" by (metis append_butlast_last_id)
  then have "walk ds cur xs = walk ds cur (butlast xs @ [[]])" by simp
  also have "\<dots> = walk ds cur (butlast xs)"
    by (simp add: walk_append split: option.splits)
  finally show ?thesis .
qed

text \<open>
  A name without \<open>/\<close> denotes the file of that name in the directory it is joined to.
\<close>

lemma posix_locate_plain:
  assumes "CHR ''/'' \<notin> set n" and "n \<noteq> []" and "n \<noteq> ''.''" and "n \<noteq> ''..''"
  shows "posix_locate ds cwd (d, n) =
           (case posix_dir ds cwd d of
              None \<Rightarrow> None
            | Some cur \<Rightarrow> if cur @ [n] \<in> set ds then None else Some (cur @ [n]))"
proof -
  from assms(1,2) have hn: "hd n \<noteq> CHR ''/''" by (cases n) auto
  let ?start = "if d \<noteq> [] \<and> hd d = CHR ''/'' then [] else cwd"
  let ?name = "os_path_join d n"
  have start: "(if ?name \<noteq> [] \<and> hd ?name = CHR ''/'' then [] else cwd) = ?start"
    using hn assms(2) by (cases d) (auto simp: os_path_join_def)
  have cs: "butlast (split_slash ?name) @ [last (split_slash ?name)] = split_slash ?name"
    by (simp add: split_slash_def split_from_nonempty)
  have "last (split_slash ?name) = n
      \<and> walk ds ?start (butlast (split_slash ?name)) = posix_dir ds cwd d"
  proof (cases "d = []")
    case True
    then show ?thesis
      using hn assms(1) by (simp add: os_path_join_def split_slash_def split_from_plain posix_dir_def)
  next
    case False
    show ?thesis
    proof (cases "last d = CHR ''/''")
      case True
      with False hn have nm: "?name = d @ n" by (simp add: os_path_join_def)
      have l: "last (split_from [] d) = []" by (rule split_from_last_slash [OF False True])
      have "split_slash ?name = butlast (split_from [] d) @ [n]"
        unfolding nm split_slash_def split_from_append l
        using assms(1) by (simp add: split_from_plain)
      moreover have "walk ds ?start (split_from [] d) = walk ds ?start (butlast (split_from [] d))"
        by (rule walk_butlast_empty [OF split_from_nonempty l])
      ultimately show ?thesis by (simp add: posix_dir_def split_slash_def)
    next
      case ls: False
      with False hn have nm: "?name = d @ CHR ''/'' # n" by (simp add: os_path_join_def)
      have "split_slash ?name = split_from [] d @ [n]"
        unfolding nm split_slash_def split_from_append
        using assms(1) by (simp add: split_from_plain split_from_nonempty)
      then show ?thesis by (simp add: posix_dir_def split_slash_def)
    qed
  qed
  then show ?thesis
    using assms(2-4) by (simp add: posix_locate_def Let_def start split: option.splits)
qed


lemma digit_char_no_slash: "d < 10 \<Longrightarrow> digit_char d \<noteq> CHR ''/''"
proof
  assume d: "d < 10" and e: "digit_char d = CHR ''/''"
  from d have "of_char (digit_char d) = 48 + d" by (simp add: digit_char_def)
  with e have "(47 :: nat) = 48 + d" by simp
  then show False by simp
qed

lemma str_nat_no_slash: "CHR ''/'' \<notin> set (str_nat n)"
proof (induction n rule: str_nat.induct)
  case (1 n)
  show ?case
  proof (cases "n < 10")
    case True
    then show ?thesis
      using digit_char_no_slash [of n] by (subst str_nat.simps) auto
  next
    case False
    with 1 have "CHR ''/'' \<notin> set (str_nat (n div 10))" by simp
    moreover have "digit_char (n mod 10) \<noteq> CHR ''/''" by (rule digit_char_no_slash) simp
    ultimately show ?thesis using False by (subst str_nat.simps) auto
  qed
qed

lemma epoch_file_no_slash: "CHR ''/'' \<notin> set k \<Longrightarrow> CHR ''/'' \<notin> set (epoch_file k e)"
  by (simp add: epoch_file_def fmt_02d_def str_nat_no_slash)

lemma epoch_file_long: "6 \<le> length (epoch_file k e)"
  by (simp add: epoch_file_def)

text \<open>
  On a POSIX file system, in a storage directory that exists and in which no directory
  has the name of an epoch file, keys without \<open>/\<close> have files that can be opened, and
  different keys have different files.
\<close>

lemma plain_keys_files:
  assumes "locate (host s) = posix_locate ds cwd"
    and "posix_dir ds cwd (log_dir_path s) = Some cur"
    and "\<forall>k\<in>set (keys s). plain_key k \<and> cur @ [epoch_file k epoch] \<notin> set ds"
  shows "(\<forall>k\<in>set (keys s). locate (host s) (epoch_path s k epoch) \<noteq> None)
       \<and> inj_on (\<lambda>k. locate (host s) (epoch_path s k epoch)) (set (keys s))"
proof -
  have loc: "locate (host s) (epoch_path s k epoch) = Some (cur @ [epoch_file k epoch])"
    if "k \<in> set (keys s)" for k
  proof -
    from that assms(3) have p: "CHR ''/'' \<notin> set k" and d: "cur @ [epoch_file k epoch] \<notin> set ds"
      by (simp_all add: plain_key_def)
    let ?n = "epoch_file k epoch"
    from epoch_file_long [of k epoch] have "?n \<noteq> []" "?n \<noteq> ''.''" "?n \<noteq> ''..''" by auto
    with posix_locate_plain [OF epoch_file_no_slash [OF p], of epoch ds cwd "log_dir_path s"]
    show ?thesis using assms(1,2) d by (simp add: epoch_path_def)
  qed
  then have "\<forall>k\<in>set (keys s). locate (host s) (epoch_path s k epoch) \<noteq> None" by simp
  moreover have "inj_on (\<lambda>k. locate (host s) (epoch_path s k epoch)) (set (keys s))"
  proof (rule inj_onI)
    fix k k' assume "k \<in> set (keys s)" and "k' \<in> set (keys s)"
      and "locate (host s) (epoch_path s k epoch) = locate (host s) (epoch_path s k' epoch)"
    then have "epoch_file k epoch = epoch_file k' epoch" by (simp add: loc)
    then show "k = k'" by (rule epoch_file_key_inj)
  qed
  ultimately show ?thesis by (rule conjI)
qed

text \<open>
  There, when moreover every scale is accepted and no directory has the name of a
  chart, every chart of such keys can be written.
\<close>

lemma plain_keys_plot_ready:
  assumes "locate (host s) = posix_locate ds cwd"
    and "posix_dir ds cwd (log_dir_path s) = Some cur"
    and "\<forall>kv\<in>set (meta_info_dict s). plain_key (fst kv) \<and> cur @ [fst kv @ ''.pdf''] \<notin> set ds
           \<and> plt_yscale (host s) (key_scale (snd kv)) = None"
  shows "plot_ready s"
proof -
  have "locate (host s) (chart_path s k) \<noteq> None"
    if "plain_key k" and "cur @ [k @ ''.pdf''] \<notin> set ds" for k
  proof -
    let ?n = "k @ ''.pdf''"
    from that(1) have "CHR ''/'' \<notin> set ?n" by (simp add: plain_key_def)
    moreover have "?n \<noteq> []" "?n \<noteq> ''.''" "?n \<noteq> ''..''" by auto
    ultimately have "posix_locate ds cwd (log_dir_path s, ?n) = Some (cur @ [?n])"
      using assms(2) that(2) by (simp add: posix_locate_plain)
    with assms(1) show ?thesis by (simp add: chart_path_def)
  qed
  with assms(3) show ?thesis by (auto simp: plot_ready_def list_all_iff)
qed

subsection \<open>The platform of the examples\<close>


lemma demo_plt_yscale: "plt_yscale demo_host = registered_scale"
  by (simp add: demo_host_def)

lemma demo_locate_plain:
  assumes "CHR ''/'' \<notin> set n" and "n \<noteq> []" and "n \<noteq> ''.''" and "n \<noteq> ''..''"
  shows "locate demo_host (''logs'', n) = Some [''logs'', n]"
proof -
  from assms(1,2) have "hd n \<noteq> CHR ''/''" by (cases n) auto
  then have "os_path_join ''logs'' n = ''logs/'' @ n" by (simp add: os_path_join_def)
  moreover have "split_slash (''logs/'' @ n) = [''logs'', n]"
    using assms(1) by (simp add: split_slash_def split_from_plain)
  ultimately show ?thesis using assms(2-4)
    by (simp add: demo_host_def posix_locate_def Let_def)
qed


section \<open>Saving an epoch and loading it back\<close>






text \<open>
  A key with a directory in it cannot be saved where the directory is missing:
  \<open>open\<close> raises before anything is written.
\<close>

lemma save_epoch_missing_directory:
  "save_epoch ((fresh_logger [(''train/loss'', [])] ''logs'' False 2 demo_host Map.empty)
                 \<lparr>info := [[(''train/loss'', [0.5])]]\<rparr>) 0 =
   Inl (OSError, (fresh_logger [(''train/loss'', [])] ''logs'' False 2 demo_host Map.empty)
                 \<lparr>info := [[(''train/loss'', [0.5])]]\<rparr>)"
  by (simp add: save_epoch_def keys_def fresh_logger_def epoch_path_def epoch_file_def
      fmt_02d_def str_nat.simps digit_char_def char_of_def
      demo_host_def posix_locate_def os_path_join_def split_slash_def Let_def)


section \<open>Plotting\<close>

lemma gather_items_ok:
  "fst ` set r \<subseteq> fst ` set acc \<Longrightarrow>
   \<exists>acc'. gather_items r acc = Inr acc' \<and> map fst acc' = map fst acc"
proof (induction r arbitrary: acc)
  case Nil
  then show ?case by simp
next
  case (Cons kv r)
  obtain k v where kv: "kv = (k, v)" by (cases kv)
  with Cons.prems have k: "k \<in> fst ` set acc" by simp
  then obtain xs where xs: "map_of acc k = Some xs"
    by (metis map_of_eq_None_iff not_None_eq)
  have keep: "map fst (AList.update k (xs @ v) acc) = map fst acc"
    by (rule keys_update_present [OF k])
  then have "fst ` set (AList.update k (xs @ v) acc) = fst ` set acc" by (metis set_map)
  with Cons.prems have "fst ` set r \<subseteq> fst ` set (AList.update k (xs @ v) acc)" by simp
  from Cons.IH [OF this] keep kv xs show ?case by simp
qed

lemma gather_ok:
  "\<forall>r\<in>set rs. fst ` set r \<subseteq> fst ` set acc \<Longrightarrow>
   \<exists>acc'. gather rs acc = Inr acc' \<and> map fst acc' = map fst acc"
proof (induction rs arbitrary: acc)
  case Nil
  then show ?case by simp
next
  case (Cons r rs)
  then have "fst ` set r \<subseteq> fst ` set acc" by simp
  from gather_items_ok [OF this] obtain acc1 where
    a: "gather_items r acc = Inr acc1" and b: "map fst acc1 = map fst acc" by blast
  from b have "fst ` set acc1 = fst ` set acc" by (metis set_map)
  with Cons.prems have "\<forall>r\<in>set rs. fst ` set r \<subseteq> fst ` set acc1" by simp
  from Cons.IH [OF this] a b show ?case by simp
qed

lemma render_ok:
  assumes "plot_ready s"
  shows "fst ` set g \<subseteq> fst ` set (meta_info_dict s) \<Longrightarrow> \<exists>charts. render s g out = Inr charts"
proof (induction g arbitrary: out)
  case Nil
  then show ?case by simp
next
  case (Cons kv g)
  obtain k v where kv: "kv = (k, v)" by (cases kv)
  with Cons.prems have "k \<in> fst ` set (meta_info_dict s)" by simp
  then obtain opts where o: "map_of (meta_info_dict s) k = Some opts"
    by (metis map_of_eq_None_iff not_None_eq)
  then have "(k, opts) \<in> set (meta_info_dict s)" by (rule map_of_SomeD)
  with assms have "plt_yscale (host s) (key_scale opts) = None"
    and "locate (host s) (chart_path s k) \<noteq> None"
    by (auto simp: plot_ready_def list_all_iff)
  moreover from Cons.prems have "fst ` set g \<subseteq> fst ` set (meta_info_dict s)" by simp
  ultimately show ?case using Cons.IH o kv by auto
qed

lemma plot_frame: "\<exists>p. state_of (plot s) = s\<lparr>plots := p\<rparr>"
proof (cases "gather (info s) (map (\<lambda>k. (k, [])) (keys s))")
  case (Inl e)
  have "s\<lparr>plots := plots s\<rparr> = s" by simp
  with Inl show ?thesis by (intro exI [of _ "plots s"]) (simp add: plot_def state_of_def)
next
  case (Inr g)
  then show ?thesis
    by (cases "render s g []") (auto simp: plot_def state_of_def)
qed

lemma plot_returns:
  "plot s = Inr t \<Longrightarrow> \<exists>charts. t = s\<lparr>plots := plots s @ [charts]\<rparr>"
  by (auto simp: plot_def split: sum.splits prod.splits)

lemma plot_ok:
  assumes "epoch_keys_ok s" and "plot_ready s"
  shows "\<exists>charts. plot s = Inr (s\<lparr>plots := plots s @ [charts]\<rparr>)"
proof -
  let ?acc = "map (\<lambda>k. (k, [])) (keys s) :: epoch_info"
  have fa: "map fst ?acc = keys s" by (simp add: comp_def)
  then have sa: "fst ` set ?acc = set (keys s)" by (metis set_map)
  have "\<forall>r\<in>set (info s). fst ` set r \<subseteq> fst ` set ?acc"
  proof
    fix r assume "r \<in> set (info s)"
    with assms have "map fst r = keys s" by (simp add: epoch_keys_ok_def list_all_iff)
    then have "fst ` set r = set (keys s)" by (metis set_map)
    then show "fst ` set r \<subseteq> fst ` set ?acc" unfolding sa by simp
  qed
  from gather_ok [OF this] obtain g where
    g: "gather (info s) ?acc = Inr g" and kg: "map fst g = map fst ?acc"
    by blast
  from kg have "map fst g = keys s" by (simp only: fa)
  then have "fst ` set g = set (keys s)" by (metis set_map)
  then have "fst ` set g \<subseteq> fst ` set (meta_info_dict s)" by (simp add: keys_def)
  from render_ok [OF assms(2) this, of "[]"] obtain charts where "render s g [] = Inr charts"
    by blast
  with g have "plot s = Inr (s\<lparr>plots := plots s @ [charts]\<rparr>)" by (simp add: plot_def)
  then show ?thesis by (rule exI)
qed

text \<open>
  A call of \<open>plot\<close> on a store that satisfies the key invariant gets as far as the
  charts, and is recorded in \<open>plots\<close>, whether it then returns or raises.
\<close>

lemma plot_triggered:
  assumes "epoch_keys_ok s"
  shows "\<exists>charts. state_of (plot s) = s\<lparr>plots := plots s @ [charts]\<rparr>"
proof -
  let ?acc = "map (\<lambda>k. (k, [])) (keys s) :: epoch_info"
  have fa: "map fst ?acc = keys s" by (simp add: comp_def)
  then have sa: "fst ` set ?acc = set (keys s)" by (metis set_map)
  have "\<forall>r\<in>set (info s). fst ` set r \<subseteq> fst ` set ?acc"
  proof
    fix r assume "r \<in> set (info s)"
    with assms have "map fst r = keys s" by (simp add: epoch_keys_ok_def list_all_iff)
    then have "fst ` set r = set (keys s)" by (metis set_map)
    then show "fst ` set r \<subseteq> fst ` set ?acc" unfolding sa by simp
  qed
  from gather_ok [OF this] obtain g where g: "gather (info s) ?acc = Inr g" by blast
  show ?thesis
  proof (cases "render s g []")
    case (Inl ec)
    obtain e charts where "ec = (e, charts)" by (cases ec)
    with Inl g have "state_of (plot s) = s\<lparr>plots := plots s @ [charts]\<rparr>"
      by (simp add: plot_def state_of_def)
    then show ?thesis by (rule exI)
  next
    case (Inr charts)
    with g have "state_of (plot s) = s\<lparr>plots := plots s @ [charts]\<rparr>"
      by (simp add: plot_def state_of_def)
    then show ?thesis by (rule exI)
  qed
qed

lemma plot_ready_frame [simp]:
  "plot_ready (s\<lparr>info := X\<rparr>) = plot_ready s"
  "plot_ready (s\<lparr>plot_counter := c\<rparr>) = plot_ready s"
  "plot_ready (s\<lparr>plots := p\<rparr>) = plot_ready s"
  "plot_ready (s\<lparr>files := f\<rparr>) = plot_ready s"
  "plot_ready (s\<lparr>is_loading := b\<rparr>) = plot_ready s"
  by (simp_all add: plot_ready_def chart_path_def)

lemma plot_ready_demo: "plot_ready (demo e fs)"
  by (simp add: plot_ready_def demo_def fresh_logger_def demo_meta_def chart_path_def
      demo_plt_yscale registered_scale_def key_scale_def demo_locate_plain)

text \<open>The scale name \<open>logarithmic\<close> is not one of matplotlib's: the chart is not written.\<close>

lemma plot_unknown_scale:
  "plot ((fresh_logger [(''loss'', [(''yscale'', ''logarithmic'')])] ''logs'' True 2 demo_host
            Map.empty)\<lparr>info := [[(''loss'', [0.5])]]\<rparr>) =
   Inl (ValueError,
        (fresh_logger [(''loss'', [(''yscale'', ''logarithmic'')])] ''logs'' True 2 demo_host
            Map.empty)\<lparr>info := [[(''loss'', [0.5])]], plots := [[]]\<rparr>)"
  by (simp add: plot_def keys_def fresh_logger_def demo_plt_yscale registered_scale_def
      key_scale_def)

section \<open>Recording values\<close>

lemma is_floatD: "is_float v \<Longrightarrow> v = Some (PyFloat (the_float v))"
  by (auto simp: is_float_def the_float_def split: option.splits pyval.splits)

lemma log_info_loop_prefix:
  assumes "info s \<noteq> []" and "distinct pre"
    and "\<forall>k\<in>set pre. is_float (d k) \<and> map_of (last (info s)) k \<noteq> None"
  shows "\<exists>r. log_info_loop (pre @ rest) d s =
               log_info_loop rest d (s\<lparr>info := butlast (info s) @ [r]\<rparr>)
           \<and> map fst r = map fst (last (info s))
           \<and> (\<forall>k. map_of r k =
                 (if k \<in> set pre then Some (the (map_of (last (info s)) k) @ [the_float (d k)])
                  else map_of (last (info s)) k))"
  using assms
proof (induction pre arbitrary: s)
  case Nil
  then have "s\<lparr>info := butlast (info s) @ [last (info s)]\<rparr> = s" by simp
  then show ?case by (intro exI [of _ "last (info s)"]) simp
next
  case (Cons k pre)
  let ?old = "last (info s)"
  from Cons.prems have fl: "d k = Some (PyFloat (the_float (d k)))" by (simp add: is_floatD)
  from Cons.prems obtain xs where xs: "map_of ?old k = Some xs" by auto
  then have kin: "k \<in> fst ` set ?old" by (metis map_of_eq_None_iff option.distinct(1))
  let ?new = "AList.update k (xs @ [the_float (d k)]) ?old"
  let ?t = "s\<lparr>info := butlast (info s) @ [?new]\<rparr>"
  have step: "log_info_loop ((k # pre) @ rest) d s = log_info_loop (pre @ rest) d ?t"
    using Cons.prems(1) xs by (simp add: fl [symmetric]) (subst fl, simp)
  have keep: "map fst ?new = map fst ?old" by (rule keys_update_present [OF kin])
  have look: "map_of ?new k' = (if k' = k then Some (xs @ [the_float (d k)]) else map_of ?old k')"
    for k' by (simp add: update_conv')
  from Cons.prems(2) have nk: "k \<notin> set pre" and dp: "distinct pre" by simp_all
  have p1: "info ?t \<noteq> []" by simp
  have p3: "\<forall>k'\<in>set pre. is_float (d k') \<and> map_of (last (info ?t)) k' \<noteq> None"
    using Cons.prems(3) nk by (auto simp: look)
  from Cons.IH [OF p1 dp p3] obtain r where
    r1: "log_info_loop (pre @ rest) d ?t = log_info_loop rest d (?t\<lparr>info := butlast (info ?t) @ [r]\<rparr>)"
    and r2: "map fst r = map fst (last (info ?t))"
    and r3: "\<forall>k'. map_of r k' =
                 (if k' \<in> set pre then Some (the (map_of (last (info ?t)) k') @ [the_float (d k')])
                  else map_of (last (info ?t)) k')"
    by blast
  have a: "log_info_loop ((k # pre) @ rest) d s =
             log_info_loop rest d (s\<lparr>info := butlast (info s) @ [r]\<rparr>)"
    using step r1 by simp
  have b: "map fst r = map fst ?old" using r2 keep by simp
  have c: "\<forall>k'. map_of r k' =
                 (if k' \<in> set (k # pre) then Some (the (map_of ?old k') @ [the_float (d k')])
                  else map_of ?old k')"
    using r3 nk xs by (auto simp: look)
  from a b c show ?case by blast
qed


lemma open_epoch_keys:
  assumes "info s \<noteq> []" and "epoch_keys_ok s"
  shows "map fst (last (info s)) = keys s"
  using assms by (simp add: epoch_keys_ok_def list_all_iff)

lemma open_epoch_has_keys:
  assumes "info s \<noteq> []" and "epoch_keys_ok s" and "k \<in> set (keys s)"
  shows "map_of (last (info s)) k \<noteq> None"
proof -
  from open_epoch_keys [OF assms(1,2)] have "fst ` set (last (info s)) = set (keys s)"
    by (metis set_map)
  with assms(3) show ?thesis by (simp add: map_of_eq_None_iff)
qed

lemma log_info_loop_fail:
  assumes "info s \<noteq> []" and "epoch_keys_ok s" and "distinct (keys s)"
    and "\<exists>k\<in>set (keys s). \<not> is_float (d k)"
  shows "\<exists>e r. log_info_loop (keys s) d s = Inl (e, s\<lparr>info := butlast (info s) @ [r]\<rparr>)
           \<and> (e = KeyError \<or> e = AssertionError) \<and> map fst r = keys s"
proof -
  from assms(4) obtain pre k post where split: "keys s = pre @ k # post"
    and bad: "\<not> is_float (d k)" and good: "\<forall>k'\<in>set pre. is_float (d k')"
    by (auto dest!: split_list_first_prop)
  from assms(3) split have dp: "distinct pre" by simp
  have pre: "\<forall>k'\<in>set pre. is_float (d k') \<and> map_of (last (info s)) k' \<noteq> None"
  proof
    fix k' assume k': "k' \<in> set pre"
    with split have "k' \<in> set (keys s)" by simp
    from open_epoch_has_keys [OF assms(1,2) this] good k'
    show "is_float (d k') \<and> map_of (last (info s)) k' \<noteq> None" by simp
  qed
  from log_info_loop_prefix [OF assms(1) dp pre, of "k # post"] obtain r where
    r1: "log_info_loop (pre @ k # post) d s =
           log_info_loop (k # post) d (s\<lparr>info := butlast (info s) @ [r]\<rparr>)"
    and r2: "map fst r = map fst (last (info s))"
    by blast
  let ?t = "s\<lparr>info := butlast (info s) @ [r]\<rparr>"
  from bad have "log_info_loop (k # post) d ?t = Inl (KeyError, ?t)
      \<or> log_info_loop (k # post) d ?t = Inl (AssertionError, ?t)"
    by (cases "d k"; cases "the (d k)") (simp_all add: is_float_def)
  with r1 split r2 open_epoch_keys [OF assms(1,2)] show ?thesis by auto
qed

lemma log_info_loop_ok:
  assumes "info s \<noteq> []" and "epoch_keys_ok s" and "distinct (keys s)"
    and "\<forall>k\<in>set (keys s). is_float (d k)"
  shows "\<exists>r. log_info_loop (keys s) d s = Inr (s\<lparr>info := butlast (info s) @ [r]\<rparr>)
           \<and> map fst r = keys s
           \<and> (\<forall>k\<in>set (keys s).
                 map_of r k = Some (the (map_of (last (info s)) k) @ [the_float (d k)]))"
proof -
  have pre: "\<forall>k\<in>set (keys s). is_float (d k) \<and> map_of (last (info s)) k \<noteq> None"
    using assms(4) open_epoch_has_keys [OF assms(1,2)] by simp
  from log_info_loop_prefix [OF assms(1) assms(3) pre, of "[]"] obtain r where
    r1: "log_info_loop (keys s) d s = Inr (s\<lparr>info := butlast (info s) @ [r]\<rparr>)"
    and r2: "map fst r = map fst (last (info s))"
    and r3: "\<forall>k. map_of r k =
                 (if k \<in> set (keys s) then Some (the (map_of (last (info s)) k) @ [the_float (d k)])
                  else map_of (last (info s)) k)"
    by auto
  from r1 r2 r3 open_epoch_keys [OF assms(1,2)] show ?thesis by auto
qed

lemma epoch_keys_ok_replace_last:
  assumes "epoch_keys_ok s" and "map fst r = keys s"
  shows "epoch_keys_ok (s\<lparr>info := butlast (info s) @ [r]\<rparr>)"
  using assms by (auto simp: epoch_keys_ok_def list_all_iff dest: in_set_butlastD)

lemma epoch_keys_ok_frame [simp]:
  "epoch_keys_ok (s\<lparr>plot_counter := c\<rparr>) = epoch_keys_ok s"
  "epoch_keys_ok (s\<lparr>plots := p\<rparr>) = epoch_keys_ok s"
  "epoch_keys_ok (s\<lparr>files := f\<rparr>) = epoch_keys_ok s"
  "epoch_keys_ok (s\<lparr>stdout := out\<rparr>) = epoch_keys_ok s"
  "epoch_keys_ok (s\<lparr>summaries := sm\<rparr>) = epoch_keys_ok s"
  "epoch_keys_ok (s\<lparr>is_loading := b\<rparr>) = epoch_keys_ok s"
  by (simp_all add: epoch_keys_ok_def keys_def)




lemma log_info_demo_ok:
  "log_info (demo [[(''loss'', [0.5]), (''acc'', [0.1])]] Map.empty)
     [''loss'' \<mapsto> PyFloat 0.4, ''acc'' \<mapsto> PyFloat 0.2] =
   Inr ((demo [[(''loss'', [0.5, 0.4]), (''acc'', [0.1, 0.2])]] Map.empty)\<lparr>plot_counter := 1\<rparr>)"
  by (simp add: log_info_def keys_def demo_def fresh_logger_def demo_meta_def Let_def)

lemma log_info_demo_missing:
  "log_info (demo [[(''loss'', [0.5]), (''acc'', [0.1])]] Map.empty) [''loss'' \<mapsto> PyFloat 0.4] =
   Inl (KeyError, demo [[(''loss'', [0.5, 0.4]), (''acc'', [0.1])]] Map.empty)"
  by (simp add: log_info_def keys_def demo_def fresh_logger_def demo_meta_def Let_def)


text \<open>
  With a scale that \<open>plt.yscale\<close> refuses, the call that makes the counter wrap raises
  after it has appended the values.
\<close>

lemma log_info_unknown_scale:
  "log_info ((fresh_logger [(''loss'', [(''yscale'', ''logarithmic'')])] ''logs'' True 1 demo_host
               Map.empty)\<lparr>info := [[(''loss'', [])]]\<rparr>) [''loss'' \<mapsto> PyFloat 0.5] =
   Inl (ValueError,
        (fresh_logger [(''loss'', [(''yscale'', ''logarithmic'')])] ''logs'' True 1 demo_host
               Map.empty)\<lparr>info := [[(''loss'', [0.5])]], plots := [[]]\<rparr>)"
  by (simp add: log_info_def plot_def keys_def fresh_logger_def demo_plt_yscale
      registered_scale_def key_scale_def Let_def)



section \<open>Counting the renders\<close>





lemma new_epoch_ok:
  assumes "epoch_keys_ok s" and "plot_ready s"
  shows "\<exists>s'. new_epoch s = Inr s'
           \<and> info s' = info s @ [map (\<lambda>k. (k, [])) (keys s)]
           \<and> length (plots s') =
               length (plots s) + (if \<not> is_loading s \<and> periodic_plot s then 1 else 0)
           \<and> plot_counter s' = plot_counter s"
proof (cases "\<not> is_loading s \<and> periodic_plot s")
  case True
  from plot_ok [OF assms] obtain charts where
    "plot s = Inr (s\<lparr>plots := plots s @ [charts]\<rparr>)" by blast
  with True show ?thesis by (simp add: new_epoch_def keys_def)
next
  case False
  then show ?thesis by (auto simp: new_epoch_def)
qed






section \<open>Epoch summaries\<close>

lemma print_epoch_summary_cases:
  "print_epoch_summary s epoch =
     (case py_index (info s) epoch of
        None \<Rightarrow> Inl (IndexError, s\<lparr>stdout := stdout s @ [Header epoch]\<rparr>)
      | Some [] \<Rightarrow> Inr (s\<lparr>stdout := stdout s @ [Header epoch, Blank]\<rparr>)
      | Some (kv # kvs) \<Rightarrow> Inl (NameError, s\<lparr>stdout := stdout s @ [Header epoch]\<rparr>))"
  by (cases "py_index (info s) epoch"; cases "the (py_index (info s) epoch)";
      cases "hd (the (py_index (info s) epoch))")
     (simp_all add: print_epoch_summary_def get_key_alias_def module_global_k_def)

lemma summary_loop_empty:
  "(k, []) \<in> set r \<Longrightarrow> summary_loop r acc = Inl ZeroDivisionError"
  by (induction r acc rule: summary_loop.induct) auto

lemma save_epoch_summary_raises:
  "\<exists>e. save_epoch_summary s epoch = Inl (e, s)"
  by (simp add: save_epoch_summary_def getattr_dir_def split: option.splits sum.splits)

text \<open>
  C7. \<open>save_epoch_summary\<close> writes no summary file: on an epoch with values under every
  key the means are computed, and then the read of \<open>self.dir_path\<close>, an attribute the
  class never sets (the directory is \<open>log_dir_path\<close>), raises AttributeError. By
  \<open>save_epoch_summary_raises\<close> the method raises on every input and leaves the state,
  the summary files included, as it was.
\<close>

theorem save_epoch_summary_attribute_error:
  "save_epoch_summary (demo [[(''loss'', [0.5, 0.4]), (''acc'', [0.1, 0.2])]] Map.empty) 0 =
     Inl (AttributeError, demo [[(''loss'', [0.5, 0.4]), (''acc'', [0.1, 0.2])]] Map.empty)"
  by (simp add: save_epoch_summary_def demo_def fresh_logger_def py_index_def getattr_dir_def)

text \<open>
  C8. \<open>print_epoch_summary\<close> prints no alias and no mean: on an epoch with values under
  every key it prints the header, and the first call of \<open>get_key_alias\<close> raises
  NameError, since that method reads \<open>k\<close> where its parameter is \<open>key\<close>. By
  \<open>print_epoch_summary_cases\<close> this happens for every epoch that has a key.
\<close>

theorem print_epoch_summary_name_error:
  "print_epoch_summary (demo [[(''loss'', [0.5, 0.4]), (''acc'', [0.1, 0.2])]] Map.empty) 0 =
     Inl (NameError,
          demo [[(''loss'', [0.5, 0.4]), (''acc'', [0.1, 0.2])]] Map.empty \<lparr>stdout := [Header 0]\<rparr>)"
  by (simp add: print_epoch_summary_cases demo_def fresh_logger_def py_index_def)

text \<open>
  The mean of no values. \<open>save_epoch_summary\<close> raises ZeroDivisionError, and changes
  nothing, whenever some declared key has no recorded value in the epoch it is given:
  the division is reached before the attribute that does not exist.
\<close>

lemma save_epoch_summary_zero_division:
  assumes "py_index (info s) epoch = Some epoch_info"
    and "k \<in> set (keys s)" and "map_of epoch_info k = Some []"
  shows "save_epoch_summary s epoch = Inl (ZeroDivisionError, s)"
proof -
  from assms(3) have "(k, []) \<in> set epoch_info" by (rule map_of_SomeD)
  then have "summary_loop epoch_info [] = Inl ZeroDivisionError" by (rule summary_loop_empty)
  with assms(1) show ?thesis by (simp add: save_epoch_summary_def)
qed

lemma save_epoch_summary_empty_key:
  "save_epoch_summary (demo [[(''loss'', [0.5]), (''acc'', [])]] Map.empty) 0 =
     Inl (ZeroDivisionError, demo [[(''loss'', [0.5]), (''acc'', [])]] Map.empty)"
  by (simp add: save_epoch_summary_def demo_def fresh_logger_def py_index_def)

text \<open>
  C9. On an epoch where a declared key has no value, \<open>save_epoch_summary\<close> fails with
  the division by zero, as the lemmas above show, and \<open>print_epoch_summary\<close> does not:
  it prints the header and raises NameError at the first key, in \<open>get_key_alias\<close>,
  before the mean of any key is computed. This is the slip of C8 again; the division
  that the sibling method reaches is never reached here.
\<close>

theorem print_epoch_summary_empty_key:
  "print_epoch_summary (demo [[(''loss'', [0.5]), (''acc'', [])]] Map.empty) 0 =
     Inl (NameError, demo [[(''loss'', [0.5]), (''acc'', [])]] Map.empty \<lparr>stdout := [Header 0]\<rparr>)"
  by (simp add: print_epoch_summary_cases demo_def fresh_logger_def py_index_def)

section \<open>The key invariant\<close>

lemma state_of_simps [simp]:
  "state_of (Inl (e, s)) = s" "state_of (Inr s) = s"
  by (simp_all add: state_of_def)

lemma epoch_keys_ok_update_last:
  assumes "epoch_keys_ok s" and "info s \<noteq> []" and "map_of (last (info s)) k = Some xs"
  shows "epoch_keys_ok (s\<lparr>info := butlast (info s) @ [AList.update k v (last (info s))]\<rparr>)"
proof (rule epoch_keys_ok_replace_last [OF assms(1)])
  from assms(3) have "k \<in> fst ` set (last (info s))"
    by (metis map_of_eq_None_iff option.distinct(1))
  then have "map fst (AList.update k v (last (info s))) = map fst (last (info s))"
    by (rule keys_update_present)
  with open_epoch_keys [OF assms(2,1)] show "map fst (AList.update k v (last (info s))) = keys s"
    by simp
qed

lemma log_info_loop_keeps:
  "epoch_keys_ok s \<Longrightarrow> epoch_keys_ok (state_of (log_info_loop ks d s))"
proof (induction ks arbitrary: s)
  case Nil
  then show ?case by simp
next
  case (Cons k ks)
  show ?case
  proof (cases "d k")
    case None
    with Cons.prems show ?thesis by simp
  next
    case (Some v)
    show ?thesis
    proof (cases v)
      case (PyFloat x)
      show ?thesis
      proof (cases "info s = [] \<or> map_of (last (info s)) k = None")
        case True
        with Some PyFloat Cons.prems show ?thesis by auto
      next
        case False
        then obtain xs where ne: "info s \<noteq> []" and xs: "map_of (last (info s)) k = Some xs"
          by auto
        let ?t = "s\<lparr>info := butlast (info s) @ [AList.update k (xs @ [x]) (last (info s))]\<rparr>"
        have "epoch_keys_ok ?t" by (rule epoch_keys_ok_update_last [OF Cons.prems ne xs])
        then have "epoch_keys_ok (state_of (log_info_loop ks d ?t))" by (rule Cons.IH)
        with Some PyFloat ne xs show ?thesis by simp
      qed
    qed (use Some Cons.prems in simp_all)
  qed
qed

lemma plot_keeps: "epoch_keys_ok s \<Longrightarrow> epoch_keys_ok (state_of (plot s))"
  using plot_frame [of s] by auto

lemma log_info_keeps:
  assumes "epoch_keys_ok s"
  shows "epoch_keys_ok (state_of (log_info s d))"
proof (cases "log_info_loop (keys s) d s")
  case (Inl err)
  with log_info_loop_keeps [OF assms, of "keys s" d] show ?thesis
    by (cases err) (simp add: log_info_def)
next
  case (Inr t)
  with log_info_loop_keeps [OF assms, of "keys s" d] have ok: "epoch_keys_ok t" by simp
  then have "epoch_keys_ok (state_of (plot (t\<lparr>plot_counter := c\<rparr>)))" for c
    by (intro plot_keeps) simp
  with Inr ok show ?thesis by (simp add: log_info_def Let_def)
qed

lemma new_epoch_keeps:
  assumes "epoch_keys_ok s"
  shows "epoch_keys_ok (state_of (new_epoch s))"
proof -
  have app: "epoch_keys_ok t \<Longrightarrow> epoch_keys_ok (t\<lparr>info := info t @ [map (\<lambda>k. (k, [])) (keys t)]\<rparr>)"
    for t by (simp add: epoch_keys_ok_def comp_def)
  show ?thesis
  proof (cases "\<not> is_loading s \<and> periodic_plot s")
    case True
    show ?thesis
    proof (cases "plot s")
      case (Inl err)
      with plot_keeps [OF assms] True show ?thesis
        by (cases err) (simp add: new_epoch_def)
    next
      case (Inr t)
      with plot_keeps [OF assms] have "epoch_keys_ok t" by simp
      from app [OF this] Inr True show ?thesis by (simp add: new_epoch_def)
    qed
  next
    case False
    with app [OF assms] show ?thesis by (auto simp: new_epoch_def)
  qed
qed

lemma save_epoch_loop_frame:
  "\<exists>fs. state_of (save_epoch_loop ks e s) = s\<lparr>files := fs\<rparr>"
proof (induction ks arbitrary: s)
  case Nil
  have "s = s\<lparr>files := files s\<rparr>" by simp
  then show ?case by (metis save_epoch_loop.simps(1) state_of_simps(2))
next
  case (Cons k ks)
  let ?p = "epoch_path s k e"
  let ?a = "s\<lparr>files := write_file (host s) ?p NotJson (files s)\<rparr>"
  show ?case
  proof (cases "locate (host s) ?p")
    case None
    then have "state_of (save_epoch_loop (k # ks) e s) = s" by (simp add: Let_def)
    moreover have "s = s\<lparr>files := files s\<rparr>" by simp
    ultimately show ?thesis by metis
  next
    case (Some l)
    note loc = this
    show ?thesis
    proof (cases "py_index (info s) e")
      case None
      with loc have "state_of (save_epoch_loop (k # ks) e s) = ?a" by (simp add: Let_def)
      then show ?thesis by blast
    next
      case (Some r)
      note idx = this
      show ?thesis
      proof (cases "map_of r k")
        case None
        with loc idx have "state_of (save_epoch_loop (k # ks) e s) = ?a"
          by (simp add: Let_def)
        then show ?thesis by blast
      next
        case (Some v)
        let ?b = "s\<lparr>files := write_file (host s) ?p (json_dump (host s) v) (files ?a)\<rparr>"
        from Cons.IH [of ?b] obtain fs where
          "state_of (save_epoch_loop ks e ?b) = ?b\<lparr>files := fs\<rparr>"
          by blast
        with Some loc idx
        have "state_of (save_epoch_loop (k # ks) e s) = s\<lparr>files := fs\<rparr>"
          by (simp add: Let_def)
        then show ?thesis by blast
      qed
    qed
  qed
qed

lemma save_epoch_keeps: "epoch_keys_ok s \<Longrightarrow> epoch_keys_ok (state_of (save_epoch s e))"
  using save_epoch_loop_frame [of "keys s" e s] by (auto simp: save_epoch_def)

lemma load_epoch_loop_keeps:
  "epoch_keys_ok s \<Longrightarrow> set ks \<subseteq> set (keys s) \<Longrightarrow>
   epoch_keys_ok (state_of (load_epoch_loop ks e s))"
proof (induction ks arbitrary: s)
  case Nil
  then show ?case by simp
next
  case (Cons k ks)
  show ?case
  proof (cases "files s (epoch_path s k e)")
    case None
    with Cons.prems show ?thesis by simp
  next
    case (Some c)
    show ?thesis
    proof (cases c)
      case NotJson
      with Some Cons.prems show ?thesis by simp
    next
      case (JsonArray xs)
      show ?thesis
      proof (cases "info s = []")
        case True
        with Some JsonArray Cons.prems show ?thesis by simp
      next
        case False
        let ?t = "s\<lparr>info := butlast (info s) @ [AList.update k xs (last (info s))]\<rparr>"
        have "epoch_keys_ok ?t"
        proof (cases "map_of (last (info s)) k")
          case None
          then have "k \<notin> fst ` set (last (info s))" by (simp add: map_of_eq_None_iff)
          with open_epoch_keys [OF False Cons.prems(1)] have "k \<notin> set (keys s)"
            by (metis set_map)
          with Cons.prems(2) show ?thesis by simp
        next
          case (Some ys)
          show ?thesis by (rule epoch_keys_ok_update_last [OF Cons.prems(1) False Some])
        qed
        moreover from Cons.prems(2) have "set ks \<subseteq> set (keys ?t)" by simp
        ultimately have "epoch_keys_ok (state_of (load_epoch_loop ks e ?t))" by (rule Cons.IH)
        with Some JsonArray False show ?thesis by simp
      qed
    qed
  qed
qed


lemma load_epoch_keeps: "epoch_keys_ok s \<Longrightarrow> epoch_keys_ok (state_of (load_epoch s e))"
  by (simp add: load_epoch_def load_epoch_loop_keeps)

lemma print_epoch_summary_keeps:
  "epoch_keys_ok s \<Longrightarrow> epoch_keys_ok (state_of (print_epoch_summary s e))"
  by (simp add: print_epoch_summary_cases split: option.splits list.splits)

lemma save_epoch_summary_keeps:
  "epoch_keys_ok s \<Longrightarrow> epoch_keys_ok (state_of (save_epoch_summary s e))"
  using save_epoch_summary_raises [of s e] by auto

lemma invoke_keeps:
  "epoch_keys_ok s \<Longrightarrow> epoch_keys_ok (state_of (invoke c s))"
  by (cases c)
     (simp_all add: new_epoch_keeps log_info_keeps plot_keeps save_epoch_keeps load_epoch_keeps
        print_epoch_summary_keeps save_epoch_summary_keeps save_last_epoch_def
        save_last_epoch_summary_def print_last_epoch_summary_def)

lemma invoke_all_keeps:
  "epoch_keys_ok s \<Longrightarrow> epoch_keys_ok (invoke_all cs s)"
  by (induction cs arbitrary: s) (simp_all add: invoke_keeps)

lemma load_loop_keeps:
  assumes "load_loop s epoch = Some r"
  shows "epoch_keys_ok s \<longrightarrow> epoch_keys_ok (state_of r)"
proof (rule load_loop.raw_induct
    [where P = "\<lambda>s epoch r. epoch_keys_ok s \<longrightarrow> epoch_keys_ok (state_of r)", OF _ assms])
  fix loop :: "logger \<Rightarrow> int \<Rightarrow> outcome option" and s epoch r
  assume IH: "\<And>t e y. loop t e = Some y \<Longrightarrow> epoch_keys_ok t \<longrightarrow> epoch_keys_ok (state_of y)"
  assume eq: "(case new_epoch s of
        Inl err \<Rightarrow> Some (Inl err)
      | Inr s1 \<Rightarrow>
          (case load_epoch s1 epoch of
             Inl (e, s2) \<Rightarrow>
               (if e = FileNotFoundError then
                  (if info s2 = [] then Some (Inl (IndexError, s2))
                   else Some (Inr (s2\<lparr>info := butlast (info s2), is_loading := False\<rparr>)))
                else Some (Inl (e, s2)))
           | Inr s2 \<Rightarrow> loop s2 (epoch + 1))) = Some r"
  show "epoch_keys_ok s \<longrightarrow> epoch_keys_ok (state_of r)"
  proof
    assume ok: "epoch_keys_ok s"
    show "epoch_keys_ok (state_of r)"
    proof (cases "new_epoch s")
      case (Inl err)
      with eq new_epoch_keeps [OF ok] show ?thesis by auto
    next
      case (Inr t)
      with new_epoch_keeps [OF ok] have okt: "epoch_keys_ok t" by simp
      show ?thesis
      proof (cases "load_epoch t epoch")
        case inl: (Inl err)
        obtain e u where err: "err = (e, u)" by (cases err)
        with inl have le: "load_epoch t epoch = Inl (e, u)" by simp
        with load_epoch_keeps [OF okt, of epoch] have oku: "epoch_keys_ok u" by simp
        then have okb: "epoch_keys_ok (u\<lparr>info := butlast (info u), is_loading := False\<rparr>)"
          by (auto simp: epoch_keys_ok_def keys_def list_all_iff dest: in_set_butlastD)
        from eq Inr le have "r = Inl (IndexError, u) \<or> r = Inl (e, u)
            \<or> r = Inr (u\<lparr>info := butlast (info u), is_loading := False\<rparr>)"
          by (auto split: if_splits)
        with oku okb show ?thesis by auto
      next
        case inr: (Inr u)
        with load_epoch_keeps [OF okt, of epoch] have oku: "epoch_keys_ok u" by simp
        from eq Inr inr have "loop u (epoch + 1) = Some r" by simp
        from IH [OF this] oku show ?thesis by simp
      qed
    qed
  qed
qed

lemma load_keeps:
  "load s = Some r \<Longrightarrow> epoch_keys_ok s \<Longrightarrow> epoch_keys_ok (state_of r)"
  using load_loop_keeps [of "s\<lparr>is_loading := True\<rparr>" 0 r] by (simp add: load_def)


section \<open>Equal lengths\<close>

lemma log_info_returns:
  assumes "log_info s d = Inr s'"
  shows "\<exists>t. log_info_loop (keys s) d s = Inr t \<and> info s' = info t"
proof (cases "log_info_loop (keys s) d s")
  case (Inl err)
  with assms show ?thesis by (simp add: log_info_def)
next
  case (Inr t)
  have "info s' = info t"
  proof (cases "periodic_plot t \<and> (plot_counter t + 1) mod period t = 0")
    case True
    let ?u = "t\<lparr>plot_counter := (plot_counter t + 1) mod period t\<rparr>"
    from assms Inr True have p: "period t \<noteq> 0 \<and> plot ?u = Inr s'"
      by (simp add: log_info_def Let_def split: if_splits)
    with plot_returns [of ?u s'] obtain charts where "s' = ?u\<lparr>plots := plots ?u @ [charts]\<rparr>"
      by auto
    then show ?thesis by simp
  next
    case False
    with assms Inr show ?thesis
      by (auto simp: log_info_def Let_def split: if_splits)
  qed
  with Inr show ?thesis by simp
qed

lemma log_info_same_length:
  assumes "info s \<noteq> []" and "epoch_keys_ok s" and "distinct (keys s)"
    and "same_length (last (info s))" and "log_info s d = Inr s'"
  shows "same_length (last (info s'))
       \<and> (\<forall>k\<in>set (keys s). length (the (map_of (last (info s')) k)) =
             Suc (length (the (map_of (last (info s)) k))))"
proof -
  let ?old = "last (info s)"
  from log_info_returns [OF assms(5)] obtain t where
    t: "log_info_loop (keys s) d s = Inr t" and it: "info s' = info t" by blast
  have fl: "\<forall>k\<in>set (keys s). is_float (d k)"
  proof (rule ccontr)
    assume "\<not> (\<forall>k\<in>set (keys s). is_float (d k))"
    then have "\<exists>k\<in>set (keys s). \<not> is_float (d k)" by simp
    from log_info_loop_fail [OF assms(1-3) this] t show False by auto
  qed
  from log_info_loop_ok [OF assms(1-3) fl] t obtain r where
    tr: "t = s\<lparr>info := butlast (info s) @ [r]\<rparr>" and kr: "map fst r = keys s"
    and vr: "\<forall>k\<in>set (keys s). map_of r k = Some (the (map_of ?old k) @ [the_float (d k)])"
    by auto
  from it tr have last: "last (info s') = r" by simp
  have ko: "map fst ?old = keys s" by (rule open_epoch_keys [OF assms(1,2)])
  have len: "length v = Suc (length (the (map_of ?old k)))" if "(k, v) \<in> set r" for k v
  proof -
    from that kr have k: "k \<in> set (keys s)" by (metis fst_conv image_eqI set_map)
    from kr assms(3) have "distinct (map fst r)" by simp
    with that have "map_of r k = Some v" by simp
    moreover from vr k
    have "map_of r k = Some (the (map_of ?old k) @ [the_float (d k)])" by (rule bspec)
    ultimately have "v = the (map_of ?old k) @ [the_float (d k)]" by simp
    then show ?thesis by simp
  qed
  have old_in: "the (map_of ?old k) \<in> set (map snd ?old)" if "k \<in> set (keys s)" for k
  proof -
    from that ko have "k \<in> fst ` set ?old" by (metis set_map)
    then obtain v where "map_of ?old k = Some v"
      by (metis map_of_eq_None_iff not_None_eq)
    then show ?thesis by (auto dest: map_of_SomeD intro: rev_image_eqI)
  qed
  have "same_length r"
    unfolding same_length_def
  proof (intro ballI)
    fix v w assume "v \<in> set (map snd r)" and "w \<in> set (map snd r)"
    then obtain k k' where kv: "(k, v) \<in> set r" and kw: "(k', w) \<in> set r" by auto
    from kv kr have k: "k \<in> set (keys s)" by (metis fst_conv image_eqI set_map)
    from kw kr have k': "k' \<in> set (keys s)" by (metis fst_conv image_eqI set_map)
    from assms(4) old_in [OF k] old_in [OF k']
    have "length (the (map_of ?old k)) = length (the (map_of ?old k'))"
      unfolding same_length_def by blast
    with len [OF kv] len [OF kw] show "length v = length w" by simp
  qed
  moreover have "\<forall>k\<in>set (keys s). length (the (map_of r k)) = Suc (length (the (map_of ?old k)))"
    using vr by simp
  ultimately show ?thesis by (simp add: last)
qed

lemma new_epoch_returns:
  assumes "new_epoch s = Inr s'"
  shows "last (info s') = map (\<lambda>k. (k, [])) (keys s) \<and> same_length (last (info s'))"
proof -
  have sl: "same_length (map (\<lambda>k. (k, [])) (keys s))"
    by (auto simp: same_length_def)
  show ?thesis
  proof (cases "\<not> is_loading s \<and> periodic_plot s")
    case True
    with assms have "\<exists>t. plot s = Inr t \<and> s' = t\<lparr>info := info t @ [map (\<lambda>k. (k, [])) (keys t)]\<rparr>"
      by (auto simp: new_epoch_def split: sum.splits)
    then have "last (info s') = map (\<lambda>k. (k, [])) (keys s)"
      by (auto simp: keys_def dest: plot_returns)
    with sl show ?thesis by simp
  next
    case False
    with assms have "last (info s') = map (\<lambda>k. (k, [])) (keys s)"
      by (auto simp: new_epoch_def)
    with sl show ?thesis by simp
  qed
qed


lemma load_epoch_unequal_lengths:
  "load_epoch (demo [[(''loss'', []), (''acc'', [])]]
       (map_of [((''logs'', ''loss_00.json''), JsonArray [0.5, 0.4]),
                ((''logs'', ''acc_00.json''), JsonArray [0.1])])) 0 =
     Inr (demo [[(''loss'', [0.5, 0.4]), (''acc'', [0.1])]]
       (map_of [((''logs'', ''loss_00.json''), JsonArray [0.5, 0.4]),
                ((''logs'', ''acc_00.json''), JsonArray [0.1])]))
   \<and> same_length [(''loss'', []), (''acc'', [])]
   \<and> \<not> same_length [(''loss'', [0.5, 0.4]), (''acc'', [0.1])]"
  by (simp add: load_epoch_def demo_def keys_def fresh_logger_def demo_meta_def epoch_path_def
      same_length_def)

text \<open>
  C3, as stated, fails: a call of \<open>log_info\<close> that raises at the second key has already
  appended under the first, so after the call the sequences of the open epoch differ in
  length.
\<close>

theorem log_info_partial_record:
  "log_info (demo [[(''loss'', []), (''acc'', [])]] Map.empty) [''loss'' \<mapsto> PyFloat 0.5] =
     Inl (KeyError, demo [[(''loss'', [0.5]), (''acc'', [])]] Map.empty)
   \<and> same_length [(''loss'', []), (''acc'', [])]
   \<and> \<not> same_length [(''loss'', [0.5]), (''acc'', [])]"
  by (simp add: log_info_def keys_def demo_def fresh_logger_def demo_meta_def same_length_def)

text \<open>
  C3, amended. Every epoch record has exactly the declared keys, and every method keeps
  it so, whether it returns or raises: one call, any sequence of calls in which the
  caller goes on after exceptions, and \<open>load\<close> when it returns. \<open>new_epoch\<close>, when it
  returns, leaves an open epoch with every declared key mapped to the empty sequence.
  A call of \<open>log_info\<close> that returns normally, on an open epoch whose sequences are
  equally long, leaves them equally long, each one longer. (A call of \<open>log_info\<close> that
  raises can leave a partial record, and \<open>load_epoch\<close> installs whatever lengths the
  files have, as the two examples above show.)
\<close>

theorem key_completeness:
  assumes "epoch_keys_ok s"
  shows "epoch_keys_ok (state_of (invoke c s))
       \<and> epoch_keys_ok (invoke_all cs s)
       \<and> (\<forall>r. load s = Some r \<longrightarrow> epoch_keys_ok (state_of r))
       \<and> (\<forall>s'. new_epoch s = Inr s' \<longrightarrow>
             last (info s') = map (\<lambda>k. (k, [])) (keys s) \<and> same_length (last (info s')))
       \<and> (\<forall>s'. distinct (keys s) \<and> info s \<noteq> [] \<and> same_length (last (info s))
               \<and> log_info s d = Inr s' \<longrightarrow>
             same_length (last (info s'))
             \<and> (\<forall>k\<in>set (keys s). length (the (map_of (last (info s')) k)) =
                   Suc (length (the (map_of (last (info s)) k)))))"
proof (intro conjI allI impI)
  show "epoch_keys_ok (state_of (invoke c s))" by (rule invoke_keeps [OF assms])
  show "epoch_keys_ok (invoke_all cs s)" by (rule invoke_all_keeps [OF assms])
next
  fix r assume "load s = Some r"
  then show "epoch_keys_ok (state_of r)" using assms by (rule load_keeps)
next
  fix s' assume n: "new_epoch s = Inr s'"
  from new_epoch_returns [OF n] show "last (info s') = map (\<lambda>k. (k, [])) (keys s)"
    by (rule conjunct1)
  from new_epoch_returns [OF n] show "same_length (last (info s'))"
    by (rule conjunct2)
next
  fix s' assume h: "distinct (keys s) \<and> info s \<noteq> [] \<and> same_length (last (info s))
               \<and> log_info s d = Inr s'"
  then have both: "same_length (last (info s'))
       \<and> (\<forall>k\<in>set (keys s). length (the (map_of (last (info s')) k)) =
             Suc (length (the (map_of (last (info s)) k))))"
    using assms by (intro log_info_same_length [where d = d]) simp_all
  from both show "same_length (last (info s'))" by (rule conjunct1)
  from both show "\<forall>k\<in>set (keys s). length (the (map_of (last (info s')) k)) =
             Suc (length (the (map_of (last (info s)) k)))" by (rule conjunct2)
qed

theorem key_completeness_witness:
  "epoch_keys_ok (demo [[(''loss'', [0.5]), (''acc'', [0.1])]] Map.empty)
   \<and> epoch_keys_ok (state_of (invoke (LogInfo [''loss'' \<mapsto> PyFloat 0.4])
        (demo [[(''loss'', [0.5]), (''acc'', [0.1])]] Map.empty)))
   \<and> state_of (invoke (LogInfo [''loss'' \<mapsto> PyFloat 0.4])
        (demo [[(''loss'', [0.5]), (''acc'', [0.1])]] Map.empty)) =
       demo [[(''loss'', [0.5, 0.4]), (''acc'', [0.1])]] Map.empty
   \<and> epoch_keys_ok (invoke_all [NewEpoch, LogInfo [''loss'' \<mapsto> PyFloat 0.4], SaveLastEpoch, LoadEpoch 0]
        (demo [[(''loss'', [0.5]), (''acc'', [0.1])]] Map.empty))
   \<and> (\<exists>r. load (demo [[(''loss'', [0.5]), (''acc'', [0.1])]] Map.empty) = Some r
          \<and> epoch_keys_ok (state_of r))
   \<and> (\<exists>s'. new_epoch (demo [[(''loss'', [0.5]), (''acc'', [0.1])]] Map.empty) = Inr s'
          \<and> last (info s') =
              map (\<lambda>k. (k, [])) (keys (demo [[(''loss'', [0.5]), (''acc'', [0.1])]] Map.empty))
          \<and> same_length (last (info s')))
   \<and> distinct (keys (demo [[(''loss'', [0.5]), (''acc'', [0.1])]] Map.empty))
   \<and> info (demo [[(''loss'', [0.5]), (''acc'', [0.1])]] Map.empty) \<noteq> []
   \<and> same_length (last (info (demo [[(''loss'', [0.5]), (''acc'', [0.1])]] Map.empty)))
   \<and> (\<exists>s'. log_info (demo [[(''loss'', [0.5]), (''acc'', [0.1])]] Map.empty)
              [''loss'' \<mapsto> PyFloat 0.4, ''acc'' \<mapsto> PyFloat 0.2] = Inr s'
          \<and> same_length (last (info s'))
          \<and> length (the (map_of (last (info s')) ''loss'')) = 2
          \<and> length (the (map_of (last (info s')) ''acc'')) = 2)"
proof -
  let ?s = "demo [[(''loss'', [0.5]), (''acc'', [0.1])]] Map.empty"
  let ?d = "[''loss'' \<mapsto> PyFloat 0.4, ''acc'' \<mapsto> PyFloat 0.2]"
  have k: "keys ?s = [''loss'', ''acc'']"
    by (simp add: demo_def keys_def fresh_logger_def demo_meta_def)
  have ok: "epoch_keys_ok ?s" unfolding epoch_keys_ok_def k by (simp add: demo_def)
  have dk: "distinct (keys ?s)" unfolding k by simp
  have ne: "info ?s \<noteq> []" by (simp add: demo_def)
  have sl: "same_length (last (info ?s))" by (simp add: demo_def same_length_def)
  note th = key_completeness [OF ok, of "LogInfo [''loss'' \<mapsto> PyFloat 0.4]"
      "[NewEpoch, LogInfo [''loss'' \<mapsto> PyFloat 0.4], SaveLastEpoch, LoadEpoch 0]" ?d]
  from th have a: "epoch_keys_ok (state_of (invoke (LogInfo [''loss'' \<mapsto> PyFloat 0.4]) ?s))"
    by (rule conjunct1)
  from th have b: "epoch_keys_ok (invoke_all
      [NewEpoch, LogInfo [''loss'' \<mapsto> PyFloat 0.4], SaveLastEpoch, LoadEpoch 0] ?s)"
    by (rule conjunct2 [THEN conjunct1])
  from th have c: "\<forall>r. load ?s = Some r \<longrightarrow> epoch_keys_ok (state_of r)"
    by (rule conjunct2 [THEN conjunct2, THEN conjunct1])
  from th have d: "\<forall>s'. new_epoch ?s = Inr s' \<longrightarrow>
             last (info s') = map (\<lambda>k. (k, [])) (keys ?s) \<and> same_length (last (info s'))"
    by (rule conjunct2 [THEN conjunct2, THEN conjunct2, THEN conjunct1])
  from th have e: "\<forall>s'. distinct (keys ?s) \<and> info ?s \<noteq> [] \<and> same_length (last (info ?s))
               \<and> log_info ?s ?d = Inr s' \<longrightarrow>
             same_length (last (info s'))
             \<and> (\<forall>k\<in>set (keys ?s). length (the (map_of (last (info s')) k)) =
                   Suc (length (the (map_of (last (info ?s)) k))))"
    by (rule conjunct2 [THEN conjunct2, THEN conjunct2, THEN conjunct2])
  have st: "state_of (invoke (LogInfo [''loss'' \<mapsto> PyFloat 0.4]) ?s) =
       demo [[(''loss'', [0.5, 0.4]), (''acc'', [0.1])]] Map.empty"
    unfolding invoke.simps log_info_demo_missing by simp
  have "load_loop (?s\<lparr>is_loading := True\<rparr>) 0 = Some (Inr (?s\<lparr>is_loading := True, is_loading := False\<rparr>))"
    by (rule load_loop_step_missing [of _ "[]" "''loss''" "[''acc'']"])
       (simp_all add: demo_def keys_def fresh_logger_def demo_meta_def epoch_path_def)
  then have "\<exists>r. load ?s = Some r" by (simp add: load_def)
  with c have c': "\<exists>r. load ?s = Some r \<and> epoch_keys_ok (state_of r)" by blast
  from new_epoch_ok [OF ok plot_ready_demo] d have d': "\<exists>s'. new_epoch ?s = Inr s'
          \<and> last (info s') = map (\<lambda>k. (k, [])) (keys ?s) \<and> same_length (last (info s'))"
    by blast
  have lo: "log_info ?s ?d =
      Inr ((demo [[(''loss'', [0.5, 0.4]), (''acc'', [0.1, 0.2])]] Map.empty)\<lparr>plot_counter := 1\<rparr>)"
    by (rule log_info_demo_ok)
  from e dk ne sl lo have "same_length (last (info ((demo [[(''loss'', [0.5, 0.4]), (''acc'', [0.1, 0.2])]] Map.empty)\<lparr>plot_counter := 1\<rparr>)))"
    by blast
  then have e': "\<exists>s'. log_info ?s ?d = Inr s' \<and> same_length (last (info s'))
          \<and> length (the (map_of (last (info s')) ''loss'')) = 2
          \<and> length (the (map_of (last (info s')) ''acc'')) = 2"
    unfolding lo by (simp add: demo_def)
  from ok a st b c' d' dk ne sl e' show ?thesis by (intro conjI)
qed

end
